theory Spec2Isabelle
  imports Complex_Main
begin

section \<open>The generation service (src/services/geminiService.ts)\<close>

subsection \<open>Data\<close>

text \<open>
  The declarations of \<^verbatim>\<open>../types\<close> are not part of the sources at hand; the records
  below carry the fields the two source files read and write. A TypeScript string-literal
  union (\<^verbatim>\<open>StoryStyle\<close>, the travel mode) is a \<^typ>\<open>string\<close>, a JavaScript
  \<^verbatim>\<open>number\<close> that the code only copies, compares or increments by one is an
  \<^typ>\<open>int\<close>, a time in seconds is a \<^typ>\<open>real\<close>. The \<^verbatim>\<open>totalSegments\<close> of
  \<^verbatim>\<open>generateStoryOutline\<close> comes from the caller and goes to \<^verbatim>\<open>Array(n)\<close>, which tells
  an integer from a fraction: it is a \<^typ>\<open>real\<close>. NaN and the infinities are outside
  the model.
\<close>

record RouteDetails =
  startAddress :: string
  endAddress :: string
  travelMode :: string
  duration :: string
  storyStyle :: string

record StorySource =
  src_title :: string
  src_uri :: string

record AudioBuffer =
  ab_duration :: real
  ab_samples :: "nat list"

record StorySegment =
  seg_index :: int
  seg_text :: string
  seg_audioBuffer :: "AudioBuffer option"
  seg_sources :: "StorySource list option"

text \<open>
  What the code can throw: \<^verbatim>\<open>new Error(msg)\<close> of its own, the \<^verbatim>\<open>RangeError\<close> of
  \<^verbatim>\<open>Array(n)\<close>, and whatever the environment raises (the model call, \<^verbatim>\<open>JSON.parse\<close>,
  base64 decoding, \<^verbatim>\<open>decodeAudioData\<close>), kept by its name.
\<close>

datatype error = Error string | RangeError | Rejected string

datatype json =
    JNull
  | JBool bool
  | JNumber real
  | JString string
  | JArray "json list"
  | JObject "(string \<times> json) list"

subsection \<open>The request sent to the model\<close>

text \<open>
  The prompt is a fixed template around interpolated values. \<open>contents\<close> keeps the
  interpolated values and the two switches on \<^verbatim>\<open>useSearch\<close>; the literal text of the
  template, and \<^verbatim>\<open>getStyleInstruction\<close> (a function of \<^verbatim>\<open>route.storyStyle\<close> alone,
  which \<open>contents\<close> holds inside the route), are not reproduced.
\<close>

datatype contents =
    OutlinePrompt RouteDetails real bool
  | SegmentPrompt RouteDetails int int string bool "string option"
  | SpeechParts string

datatype tool = GoogleSearch

datatype modality = AUDIO

record request =
  req_model :: string
  req_contents :: contents
  req_responseMimeType :: "string option"
  req_tools :: "tool list option"
  req_responseModalities :: "modality list option"
  req_voiceName :: "string option"

record web =
  web_uri :: "string option"
  web_title :: "string option"

record groundingChunk =
  gc_web :: "web option"

record groundingMetadata =
  gm_groundingChunks :: "groundingChunk list option"

record inlineData =
  id_data :: "string option"
  id_mimeType :: "string option"

record part =
  part_inlineData :: "inlineData option"

record content =
  content_parts :: "part list option"

record candidate =
  cand_content :: "content option"
  cand_groundingMetadata :: "groundingMetadata option"

record response =
  resp_text :: "string option"
  resp_candidates :: "candidate list option"

text \<open>
  \<^verbatim>\<open>ai.models.generateContent\<close> is the remote model: a function from the request to
  a rejection or a response, passed to every operation as \<open>gen\<close>.
\<close>

type_synonym model = "request \<Rightarrow> error + response"

subsection \<open>Constants\<close>

definition TARGET_SEGMENT_DURATION_SEC :: real where
  "TARGET_SEGMENT_DURATION_SEC = 60"

definition calculateTotalSegments :: "real \<Rightarrow> real" where
  \<comment> \<open>\<^verbatim>\<open>Math.max(1, Math.ceil(durationSeconds / TARGET_SEGMENT_DURATION_SEC))\<close>\<close>
  "calculateTotalSegments durationSeconds =
     max 1 (of_int \<lceil>durationSeconds / TARGET_SEGMENT_DURATION_SEC\<rceil>)"

subsection \<open>Strings\<close>

definition is_space :: "char \<Rightarrow> bool" where
  \<comment> \<open>the ASCII white space and line terminators that \<^verbatim>\<open>trim\<close> removes; the ones
      beyond ASCII are not modelled\<close>
  "is_space c = (c \<in> set [CHR 0x09, CHR 0x0A, CHR 0x0B, CHR 0x0C, CHR 0x0D, CHR '' ''])"

definition trim :: "string \<Rightarrow> string" where
  "trim s = rev (dropWhile is_space (rev (dropWhile is_space s)))"

definition trimmed_text :: "response \<Rightarrow> string option" where
  \<comment> \<open>\<^verbatim>\<open>response.text?.trim()\<close>\<close>
  "trimmed_text r = map_option trim (resp_text r)"

fun truthy :: "string option \<Rightarrow> bool" where
  \<comment> \<open>JavaScript truthiness of \<^verbatim>\<open>string | undefined\<close>\<close>
  "truthy None = False"
| "truthy (Some s) = (s \<noteq> [])"

definition last_chars :: "nat \<Rightarrow> string \<Rightarrow> string" where
  \<comment> \<open>\<^verbatim>\<open>s.slice(-n)\<close> for a positive \<open>n\<close>\<close>
  "last_chars n s = drop (length s - n) s"

subsection \<open>generateStoryOutline\<close>

definition HISTORY_PODCAST :: string where
  "HISTORY_PODCAST = ''HISTORY_PODCAST''"

definition outline_request :: "RouteDetails \<Rightarrow> real \<Rightarrow> request" where
  "outline_request route totalSegments =
     (let useSearch = (storyStyle route = HISTORY_PODCAST) in
      \<lparr> req_model = (if useSearch then ''gemini-3-pro-preview'' else ''gemini-3-flash-preview''),
        req_contents = OutlinePrompt route totalSegments useSearch,
        req_responseMimeType = Some ''application/json'',
        req_tools = (if useSearch then Some [GoogleSearch] else None),
        req_responseModalities = None,
        req_voiceName = None \<rparr>)"

definition PAD_OUTLINE :: json where
  "PAD_OUTLINE = JString ''Continue the journey towards the destination.''"

definition FALLBACK_OUTLINE :: json where
  "FALLBACK_OUTLINE = JString ''Continue the immersive narrative of the journey.''"

text \<open>
  The length of a JavaScript array is below \<open>2^32\<close>. \<^verbatim>\<open>Array(n)\<close> throws a RangeError
  unless \<open>n\<close> is a valid array length: an integer from 0 to \<open>2^32 - 1\<close>.
\<close>

definition MAX_ARRAY_LENGTH :: nat where
  "MAX_ARRAY_LENGTH = 4294967295"

definition valid_array_length :: "real \<Rightarrow> bool" where
  "valid_array_length n = (of_int \<lfloor>n\<rfloor> = n \<and> 0 \<le> n \<and> n \<le> real MAX_ARRAY_LENGTH)"

definition array_fill :: "real \<Rightarrow> 'a \<Rightarrow> error + 'a list" where
  \<comment> \<open>\<^verbatim>\<open>Array(n).fill(v)\<close>\<close>
  "array_fill n v =
     (if valid_array_length n then Inr (replicate (nat \<lfloor>n\<rfloor>) v) else Inl RangeError)"

text \<open>
  \<^verbatim>\<open>while (outline.length < totalSegments) outline.push(...)\<close>. A \<^verbatim>\<open>push\<close> onto an array
  of length \<open>2^32 - 1\<close> throws (setting the length to \<open>2^32\<close> is a RangeError), so the
  loop ends: with the padded array, or with that error.
\<close>

function pad_outline :: "json list \<Rightarrow> real \<Rightarrow> error + json list" where
  "pad_outline outline totalSegments =
     (if real (length outline) < totalSegments
      then (if MAX_ARRAY_LENGTH \<le> length outline then Inl RangeError
            else pad_outline (outline @ [PAD_OUTLINE]) totalSegments)
      else Inr outline)"
  by pat_completeness auto

termination
  by (relation "measure (\<lambda>(outline, totalSegments). MAX_ARRAY_LENGTH - length outline)") auto

declare pad_outline.simps [simp del]

definition to_integer :: "real \<Rightarrow> int" where
  \<comment> \<open>the conversion of an index argument: the fraction is cut off, towards zero\<close>
  "to_integer x = (if x < 0 then \<lceil>x\<rceil> else \<lfloor>x\<rfloor>)"

definition slice0 :: "'a list \<Rightarrow> real \<Rightarrow> 'a list" where
  \<comment> \<open>\<^verbatim>\<open>xs.slice(0, n)\<close>: a negative end counts from the end of the array\<close>
  "slice0 xs n =
     (let k = to_integer n in
      if k < 0 then take (nat (max (int (length xs) + k) 0)) xs else take (nat k) xs)"

text \<open>The body of the \<^verbatim>\<open>try\<close> block; \<open>parse\<close> is \<^verbatim>\<open>JSON.parse\<close>.\<close>

definition outline_try ::
  "model \<Rightarrow> (string \<Rightarrow> error + json) \<Rightarrow> RouteDetails \<Rightarrow> real \<Rightarrow> error + json list" where
  "outline_try gen parse route totalSegments =
     (case gen (outline_request route totalSegments) of
        Inl e \<Rightarrow> Inl e
      | Inr response \<Rightarrow>
          (case trimmed_text response of
             None \<Rightarrow> Inl (Error ''No outline generated.'')
           | Some t \<Rightarrow>
               if t = [] then Inl (Error ''No outline generated.'')
               else
                 (case parse t of
                    Inl e \<Rightarrow> Inl e
                  | Inr (JArray outline) \<Rightarrow>
                      if outline = [] then Inl (Error ''Invalid outline format received.'')
                      else
                        (case pad_outline outline totalSegments of
                           Inl e \<Rightarrow> Inl e
                         | Inr padded \<Rightarrow> Inr (slice0 padded totalSegments))
                  | Inr _ \<Rightarrow> Inl (Error ''Invalid outline format received.''))))"

definition generateStoryOutline ::
  "model \<Rightarrow> (string \<Rightarrow> error + json) \<Rightarrow> RouteDetails \<Rightarrow> real \<Rightarrow> error + json list" where
  "generateStoryOutline gen parse route totalSegments =
     (case outline_try gen parse route totalSegments of
        Inr outline \<Rightarrow> Inr outline
      | Inl e \<Rightarrow> array_fill totalSegments FALLBACK_OUTLINE)"

subsection \<open>generateSegment\<close>

definition segment_request ::
  "RouteDetails \<Rightarrow> int \<Rightarrow> int \<Rightarrow> string \<Rightarrow> string \<Rightarrow> request" where
  "segment_request route segmentIndex totalSegmentsEstimate segmentOutline previousContext =
     (let isFirst = (segmentIndex = 1);
          useSearch = (storyStyle route = HISTORY_PODCAST);
          contextPrompt = (if \<not> isFirst then Some (last_chars 1500 previousContext) else None)
      in
      \<lparr> req_model = (if useSearch then ''gemini-3-pro-preview'' else ''gemini-3-flash-preview''),
        req_contents =
          SegmentPrompt route segmentIndex totalSegmentsEstimate segmentOutline useSearch
            contextPrompt,
        req_responseMimeType = None,
        req_tools = (if useSearch then Some [GoogleSearch] else None),
        req_responseModalities = None,
        req_voiceName = None \<rparr>)"

definition grounding_chunks :: "response \<Rightarrow> groundingChunk list option" where
  \<comment> \<open>\<^verbatim>\<open>response.candidates?.[0]?.groundingMetadata?.groundingChunks\<close>\<close>
  "grounding_chunks r =
     (case resp_candidates r of
        None \<Rightarrow> None
      | Some [] \<Rightarrow> None
      | Some (c # _) \<Rightarrow>
          (case cand_groundingMetadata c of
             None \<Rightarrow> None
           | Some m \<Rightarrow> gm_groundingChunks m))"

text \<open>The callback of \<^verbatim>\<open>chunks.forEach\<close>, on the list \<^verbatim>\<open>sources\<close> built so far.\<close>

definition add_source :: "StorySource list \<Rightarrow> groundingChunk \<Rightarrow> StorySource list" where
  "add_source sources chunk =
     (case gc_web chunk of
        None \<Rightarrow> sources
      | Some w \<Rightarrow>
          (case web_uri w of
             None \<Rightarrow> sources
           | Some u \<Rightarrow>
               (case web_title w of
                  None \<Rightarrow> sources
                | Some ti \<Rightarrow>
                    if u \<noteq> [] \<and> ti \<noteq> [] then
                      (if find (\<lambda>s. src_uri s = u) sources = None
                       then sources @ [\<lparr> src_title = ti, src_uri = u \<rparr>]
                       else sources)
                    else sources)))"

definition extract_sources :: "response \<Rightarrow> StorySource list" where
  "extract_sources r =
     (case grounding_chunks r of
        None \<Rightarrow> []
      | Some chunks \<Rightarrow> foldl add_source [] chunks)"

definition generateSegment ::
  "model \<Rightarrow> RouteDetails \<Rightarrow> int \<Rightarrow> int \<Rightarrow> string \<Rightarrow> string \<Rightarrow> error + StorySegment" where
  "generateSegment gen route segmentIndex totalSegmentsEstimate segmentOutline previousContext =
     (case gen (segment_request route segmentIndex totalSegmentsEstimate segmentOutline
                  previousContext) of
        Inl e \<Rightarrow> Inl e
      | Inr response \<Rightarrow>
          (case trimmed_text response of
             None \<Rightarrow> Inl (Error ''No text generated for segment.'')
           | Some t \<Rightarrow>
               if t = [] then Inl (Error ''No text generated for segment.'')
               else
                 (let sources = extract_sources response in
                  Inr \<lparr> seg_index = segmentIndex,
                        seg_text = t,
                        seg_audioBuffer = None,
                        seg_sources = (if sources \<noteq> [] then Some sources else None) \<rparr>)))"

subsection \<open>generateSegmentAudio\<close>

definition speech_request :: "string \<Rightarrow> string \<Rightarrow> request" where
  "speech_request narration voiceName =
     \<lparr> req_model = ''gemini-2.5-flash-preview-tts'',
       req_contents = SpeechParts narration,
       req_responseMimeType = None,
       req_tools = None,
       req_responseModalities = Some [AUDIO],
       req_voiceName = Some voiceName \<rparr>"

definition first_inlineData :: "response \<Rightarrow> inlineData option" where
  \<comment> \<open>\<^verbatim>\<open>response.candidates?.[0]?.content?.parts?.[0]?.inlineData\<close>\<close>
  "first_inlineData r =
     (case resp_candidates r of
        None \<Rightarrow> None
      | Some [] \<Rightarrow> None
      | Some (c # _) \<Rightarrow>
          (case cand_content c of
             None \<Rightarrow> None
           | Some k \<Rightarrow>
               (case content_parts k of
                  None \<Rightarrow> None
                | Some [] \<Rightarrow> None
                | Some (p # _) \<Rightarrow> part_inlineData p)))"

definition audio_data :: "response \<Rightarrow> string option" where
  "audio_data r = (case first_inlineData r of None \<Rightarrow> None | Some d \<Rightarrow> id_data d)"

definition DEFAULT_MIME :: string where
  "DEFAULT_MIME = ''audio/pcm;rate=24000''"

definition part_mimeType :: "response \<Rightarrow> string option" where
  "part_mimeType r = (case first_inlineData r of None \<Rightarrow> None | Some d \<Rightarrow> id_mimeType d)"

definition mime_type :: "response \<Rightarrow> string" where
  \<comment> \<open>\<^verbatim>\<open>part?.inlineData?.mimeType || "audio/pcm;rate=24000"\<close>\<close>
  "mime_type r = (if truthy (part_mimeType r) then the (part_mimeType r) else DEFAULT_MIME)"

definition is_digit :: "char \<Rightarrow> bool" where
  "is_digit c = (c \<in> set ''0123456789'')"

definition rate_at :: "string \<Rightarrow> string option" where
  \<comment> \<open>the pattern \<^verbatim>\<open>rate=(\d+)\<close> tried at the head of the string: the captured digits\<close>
  "rate_at s =
     (if take 5 s = ''rate='' \<and> takeWhile is_digit (drop 5 s) \<noteq> []
      then Some (takeWhile is_digit (drop 5 s)) else None)"

fun match_rate :: "string \<Rightarrow> string option" where
  \<comment> \<open>\<^verbatim>\<open>mimeType.match(/rate=(\d+)/)\<close>: the leftmost match, its first group\<close>
  "match_rate [] = None"
| "match_rate (c # cs) =
     (case rate_at (c # cs) of Some ds \<Rightarrow> Some ds | None \<Rightarrow> match_rate cs)"

definition digit_value :: "char \<Rightarrow> int" where
  "digit_value c = int (of_char c) - 48"

definition parseInt10 :: "string \<Rightarrow> int" where
  \<comment> \<open>\<^verbatim>\<open>parseInt(ds, 10)\<close> on a non-empty run of decimal digits\<close>
  "parseInt10 ds = foldl (\<lambda>n c. 10 * n + digit_value c) 0 ds"

definition sample_rate :: "string \<Rightarrow> int" where
  "sample_rate mimeType =
     (case match_rate mimeType of Some ds \<Rightarrow> parseInt10 ds | None \<Rightarrow> 24000)"

text \<open>
  \<^verbatim>\<open>./audioUtils\<close> is not part of the sources at hand, and \<^verbatim>\<open>decodeAudioData\<close> belongs
  to the browser: \<open>base64ToArrayBuffer\<close>, \<open>pcmToWav\<close> (with the \<^verbatim>\<open>arrayBuffer()\<close> of the
  blob it returns) and \<open>decodeAudioData\<close> are parameters. Decoding base64 and decoding
  audio can fail; building the container is taken as total.
\<close>

definition generateSegmentAudio ::
  "model \<Rightarrow> (string \<Rightarrow> error + nat list) \<Rightarrow> (nat list \<Rightarrow> int \<Rightarrow> nat list) \<Rightarrow>
   (nat list \<Rightarrow> error + AudioBuffer) \<Rightarrow> string \<Rightarrow> string \<Rightarrow> error + AudioBuffer" where
  "generateSegmentAudio gen base64ToArrayBuffer pcmToWav decodeAudioData narration voiceName =
     (case gen (speech_request narration voiceName) of
        Inl e \<Rightarrow> Inl e
      | Inr response \<Rightarrow>
          (case audio_data response of
             None \<Rightarrow> Inl (Error ''No audio data received from Gemini TTS.'')
           | Some audioData \<Rightarrow>
               if audioData = [] then Inl (Error ''No audio data received from Gemini TTS.'')
               else
                 (let sampleRate = sample_rate (mime_type response) in
                  case base64ToArrayBuffer audioData of
                    Inl e \<Rightarrow> Inl e
                  | Inr pcm \<Rightarrow> decodeAudioData (pcmToWav pcm sampleRate))))"

section \<open>The player (the StoryPlayer component)\<close>

subsection \<open>State\<close>

text \<open>
  Of the props, \<^verbatim>\<open>story\<close> and \<^verbatim>\<open>isBackgroundGenerating\<close> are read by the playback
  logic; \<^verbatim>\<open>route\<close> and \<^verbatim>\<open>onSegmentChange\<close> reach only the rendering and the parent.
\<close>

record AudioStory =
  segments :: "StorySegment list"
  totalSegmentsEstimate :: int

record Props =
  story :: AudioStory
  isBackgroundGenerating :: bool

datatype ctxState = Suspended | Running

record AudioContext =
  ctx_state :: ctxState
  currentTime :: real

text \<open>
  An \<^verbatim>\<open>AudioBufferSourceNode\<close>. Its \<^verbatim>\<open>onended\<close> handler is a closure: it holds the
  segment it was created for and the props of the render whose \<^verbatim>\<open>playSegment\<close> created
  it, and these are what \<^verbatim>\<open>handleSegmentEnd\<close> reads when the handler runs.
  \<open>node_playing\<close> is true from a successful \<^verbatim>\<open>start\<close> until the node is stopped or
  has played to its end.
\<close>

record SourceNode =
  node_buffer :: "AudioBuffer option"
  node_onended :: "(StorySegment \<times> Props) option"
  node_playing :: bool
  node_offset :: real

text \<open>
  The component: its four state variables, the refs of the playback logic, and what
  surrounds it. The
  source nodes created so far are \<open>nodes\<close>, and \<open>sourceRef\<close> holds the position of a
  node in that list; \<open>awaiting\<close> are the calls of \<^verbatim>\<open>playSegment\<close> suspended at
  \<^verbatim>\<open>await resume()\<close>; \<open>props\<close> are the props of the latest render; \<open>newContext\<close>
  is what \<^verbatim>\<open>new AudioContextClass()\<close> returns.
\<close>

record Player =
  isPlaying :: bool
  currentSegmentIndex :: int
  isBuffering :: bool
  autoScroll :: bool
  audioContextRef :: "AudioContext option"
  sourceRef :: "nat option"
  startTimeRef :: real
  segmentOffsetRef :: real
  indexRef :: int
  nodes :: "SourceNode list"
  awaiting :: "(StorySegment \<times> real \<times> Props) list"
  props :: Props
  newContext :: AudioContext

definition init :: "Props \<Rightarrow> AudioContext \<Rightarrow> Player" where
  "init P c =
     \<lparr> isPlaying = False, currentSegmentIndex = 0, isBuffering = False, autoScroll = True,
       audioContextRef = None, sourceRef = None, startTimeRef = 0, segmentOffsetRef = 0,
       indexRef = 0, nodes = [], awaiting = [], props = P, newContext = c \<rparr>"

definition segment_at :: "StorySegment list \<Rightarrow> int \<Rightarrow> StorySegment option" where
  \<comment> \<open>\<^verbatim>\<open>story.segments[i]\<close>: \<^verbatim>\<open>undefined\<close> out of range\<close>
  "segment_at segs i = (if 0 \<le> i \<and> i < int (length segs) then Some (segs ! nat i) else None)"

fun ready :: "StorySegment option \<Rightarrow> StorySegment option" where
  \<comment> \<open>the segment when \<^verbatim>\<open>segment?.audioBuffer\<close> is truthy\<close>
  "ready None = None"
| "ready (Some seg) = (if seg_audioBuffer seg = None then None else Some seg)"

subsection \<open>stopAudio and playSegment\<close>

definition stopAudio :: "Player \<Rightarrow> Player" where
  \<comment> \<open>\<^verbatim>\<open>stop()\<close> throws on a node that never started; the \<^verbatim>\<open>catch\<close> swallows it\<close>
  "stopAudio s =
     (case sourceRef s of
        None \<Rightarrow> s
      | Some a \<Rightarrow>
          s\<lparr> nodes := (nodes s)[a := (nodes s ! a)\<lparr> node_onended := None, node_playing := False \<rparr>],
             sourceRef := None \<rparr>)"

text \<open>
  \<^verbatim>\<open>playSegment\<close> from \<^verbatim>\<open>stopAudio()\<close> on: what runs at once when the context is
  not suspended, and after \<^verbatim>\<open>resume()\<close> has fulfilled when it was.
  \<^verbatim>\<open>source.start(0, offset)\<close> throws a RangeError on a negative offset: the node is then
  referenced and never playing, and the rejection of the promise goes unobserved, since no
  caller awaits \<^verbatim>\<open>playSegment\<close>.
\<close>

definition playSegment_start :: "Props \<Rightarrow> StorySegment \<Rightarrow> real \<Rightarrow> Player \<Rightarrow> Player" where
  "playSegment_start P segment offset s =
     (let s1 = stopAudio s in
      case audioContextRef s1 of
        None \<Rightarrow> s1
      | Some ctx \<Rightarrow>
          s1\<lparr> nodes := nodes s1 @
                 [\<lparr> node_buffer = seg_audioBuffer segment,
                    node_onended = Some (segment, P),
                    node_playing = (0 \<le> offset),
                    node_offset = offset \<rparr>],
              sourceRef := Some (length (nodes s1)),
              startTimeRef := currentTime ctx - offset \<rparr>)"

definition playSegment :: "Props \<Rightarrow> StorySegment \<Rightarrow> real \<Rightarrow> Player \<Rightarrow> Player" where
  "playSegment P segment offset s =
     (case seg_audioBuffer segment of
        None \<Rightarrow> s\<lparr> isBuffering := True \<rparr>
      | Some b \<Rightarrow>
          (let ctx = (case audioContextRef s of None \<Rightarrow> newContext s | Some c \<Rightarrow> c);
               s1 = s\<lparr> audioContextRef := Some ctx \<rparr>
           in
           if ctx_state ctx = Suspended
           then s1\<lparr> awaiting := awaiting s1 @ [(segment, offset, P)] \<rparr>
           else playSegment_start P segment offset s1))"

definition resumed :: "Player \<Rightarrow> Player" where
  \<comment> \<open>\<^verbatim>\<open>resume()\<close> has fulfilled: the context runs, the oldest suspended call goes on\<close>
  "resumed s =
     (let s1 = s\<lparr> audioContextRef :=
                   map_option (\<lambda>c. c\<lparr> ctx_state := Running \<rparr>) (audioContextRef s) \<rparr>
      in
      case awaiting s1 of
        [] \<Rightarrow> s1
      | (segment, offset, P) # rest \<Rightarrow> playSegment_start P segment offset (s1\<lparr> awaiting := rest \<rparr>))"

subsection \<open>handleSegmentEnd, the handler of \<^verbatim>\<open>onended\<close>, togglePlayback\<close>

definition handleSegmentEnd :: "Props \<Rightarrow> Player \<Rightarrow> Player" where
  "handleSegmentEnd P s =
     (let currentIndex = indexRef s;
          nextIndex = currentIndex + 1;
          s1 = s\<lparr> currentSegmentIndex := nextIndex, segmentOffsetRef := 0 \<rparr>
      in
      case ready (segment_at (segments (story P)) nextIndex) of
        Some seg \<Rightarrow> playSegment P seg 0 s1
      | None \<Rightarrow>
          if nextIndex \<ge> totalSegmentsEstimate (story P) \<and> \<not> isBackgroundGenerating P
          then s1\<lparr> isPlaying := False \<rparr>
          else s1\<lparr> isBuffering := True \<rparr>)"

definition onended :: "Props \<Rightarrow> StorySegment \<Rightarrow> Player \<Rightarrow> Player" where
  "onended P segment s =
     (case seg_audioBuffer segment of
        None \<Rightarrow> s
      | Some b \<Rightarrow>
          (case audioContextRef s of
             None \<Rightarrow> s
           | Some ctx \<Rightarrow>
               (let elapsed = currentTime ctx - startTimeRef s in
                if elapsed \<ge> ab_duration b - 1 / 2 then handleSegmentEnd P s else s)))"

definition togglePlayback :: "Props \<Rightarrow> Player \<Rightarrow> Player" where
  "togglePlayback P s =
     (if isPlaying s then
        (let s1 = (case audioContextRef s of
                     None \<Rightarrow> s
                   | Some ctx \<Rightarrow>
                       if \<not> isBuffering s
                       then s\<lparr> segmentOffsetRef := currentTime ctx - startTimeRef s \<rparr>
                       else s)
         in (stopAudio s1)\<lparr> isPlaying := False, autoScroll := False \<rparr>)
      else
        (let s1 = s\<lparr> isPlaying := True \<rparr> in
         case ready (segment_at (segments (story P)) (currentSegmentIndex s)) of
           Some currentSegment \<Rightarrow>
             (playSegment P currentSegment (segmentOffsetRef s1) (s1\<lparr> isBuffering := False \<rparr>))
               \<lparr> autoScroll := True \<rparr>
         | None \<Rightarrow> s1\<lparr> isBuffering := True \<rparr>))"

subsection \<open>Effects and events\<close>

definition bufferReadyEffect :: "Props \<Rightarrow> Player \<Rightarrow> Player" where
  \<comment> \<open>the effect on \<^verbatim>\<open>[story.segments, currentSegmentIndex, isBuffering, isPlaying]\<close>\<close>
  "bufferReadyEffect P s =
     (case ready (segment_at (segments (story P)) (currentSegmentIndex s)) of
        Some segmentNowReady \<Rightarrow>
          if isBuffering s \<and> isPlaying s
          then playSegment P segmentNowReady 0 (s\<lparr> isBuffering := False \<rparr>)
          else s
      | None \<Rightarrow> s)"

definition commit :: "Player \<Rightarrow> Player" where
  \<comment> \<open>the effects after a render, in the order of their declaration\<close>
  "commit s = bufferReadyEffect (props s) (s\<lparr> indexRef := currentSegmentIndex s \<rparr>)"

definition sourceEnded :: "nat \<Rightarrow> Player \<Rightarrow> Player" where
  \<comment> \<open>the node at \<open>a\<close> has played to its end: the browser fires its \<^verbatim>\<open>onended\<close>\<close>
  "sourceEnded a s =
     (if a < length (nodes s) \<and> node_playing (nodes s ! a) then
        (let n = nodes s ! a;
             s1 = s\<lparr> nodes := (nodes s)[a := n\<lparr> node_playing := False \<rparr>] \<rparr>
         in case node_onended n of
              None \<Rightarrow> s1
            | Some (segment, P) \<Rightarrow> onended P segment s1)
      else s)"

definition tick :: "real \<Rightarrow> Player \<Rightarrow> Player" where
  \<comment> \<open>the clock of the audio context moves on by \<open>d\<close> seconds\<close>
  "tick d s =
     s\<lparr> audioContextRef :=
          map_option (\<lambda>c. c\<lparr> currentTime := currentTime c + max 0 d \<rparr>) (audioContextRef s) \<rparr>"

datatype event =
    Toggle
  | NewProps Props
  | Ended nat
  | Resumed
  | Tick real

fun step :: "event \<Rightarrow> Player \<Rightarrow> Player" where
  "step Toggle s = commit (togglePlayback (props s) s)"
| "step (NewProps P) s = commit (s\<lparr> props := P \<rparr>)"
| "step (Ended a) s = commit (sourceEnded a s)"
| "step Resumed s = commit (resumed s)"
| "step (Tick d) s = tick d s"

definition run :: "Props \<Rightarrow> AudioContext \<Rightarrow> event list \<Rightarrow> Player" where
  "run P c es = foldl (\<lambda>s e. step e s) (init P c) es"

definition playing_nodes :: "Player \<Rightarrow> nat list" where
  \<comment> \<open>the positions of the nodes that are playing\<close>
  "playing_nodes s = filter (\<lambda>a. node_playing (nodes s ! a)) [0 ..< length (nodes s)]"

section \<open>What the theorems speak of\<close>

text \<open>
  A grounding chunk has the web URI \<open>u\<close> and the web title \<open>ti\<close>: both are present and
  neither is the empty string (the test \<^verbatim>\<open>chunk.web?.uri && chunk.web?.title\<close>).
\<close>

definition has_uri_title :: "groundingChunk \<Rightarrow> string \<Rightarrow> string \<Rightarrow> bool" where
  "has_uri_title c u ti =
     (case gc_web c of
        None \<Rightarrow> False
      | Some w \<Rightarrow> web_uri w = Some u \<and> web_title w = Some ti \<and> u \<noteq> [] \<and> ti \<noteq> [])"

text \<open>
  The source node that \<open>sourceRef\<close> holds plays the buffer of the segment from the
  offset, with the handler that \<^verbatim>\<open>playSegment\<close> gave it.
\<close>

definition started :: "Player \<Rightarrow> StorySegment \<Rightarrow> real \<Rightarrow> Props \<Rightarrow> bool" where
  "started s segment offset P =
     (case sourceRef s of
        None \<Rightarrow> False
      | Some a \<Rightarrow>
          a < length (nodes s) \<and>
          nodes s ! a = \<lparr> node_buffer = seg_audioBuffer segment,
                          node_onended = Some (segment, P),
                          node_playing = True,
                          node_offset = offset \<rparr>)"

text \<open>
  The invariant of the single source: \<open>sourceRef\<close> holds a node that exists, and a node
  that plays is the one \<open>sourceRef\<close> holds.
\<close>

definition source_inv :: "Player \<Rightarrow> bool" where
  "source_inv s =
     ((case sourceRef s of None \<Rightarrow> True | Some a \<Rightarrow> a < length (nodes s)) \<and>
      list_all (\<lambda>a. node_playing (nodes s ! a) \<longrightarrow> sourceRef s = Some a)
        [0 ..< length (nodes s)])"

definition context_of :: "Player \<Rightarrow> AudioContext" where
  \<comment> \<open>the context \<^verbatim>\<open>playSegment\<close> works with: the one at hand, or a new one\<close>
  "context_of s = (case audioContextRef s of None \<Rightarrow> newContext s | Some c \<Rightarrow> c)"

subsection \<open>Concrete inputs\<close>

definition route0 :: RouteDetails where
  "route0 = \<lparr> startAddress = ''Pier 39'', endAddress = ''Coit Tower'', travelMode = ''WALKING'',
              duration = ''25 mins'', storyStyle = ''NOIR'' \<rparr>"

definition route_podcast :: RouteDetails where
  "route_podcast = route0\<lparr> storyStyle := ''HISTORY_PODCAST'' \<rparr>"

definition gen_down :: model where
  "gen_down = (\<lambda>_. Inl (Rejected ''503''))"

definition resp_outline :: response where
  "resp_outline = \<lparr> resp_text = Some '' [7] '', resp_candidates = None \<rparr>"

definition gen_outline :: model where
  "gen_outline = (\<lambda>_. Inr resp_outline)"

definition parse_outline :: "string \<Rightarrow> error + json" where
  "parse_outline s = (if s = ''[7]'' then Inr (JArray [JNumber 7]) else Inl (Rejected ''SyntaxError''))"

definition chunk_a :: groundingChunk where
  "chunk_a = \<lparr> gc_web = Some \<lparr> web_uri = Some ''https://a.example'', web_title = Some ''A'' \<rparr> \<rparr>"

definition chunk_a2 :: groundingChunk where
  "chunk_a2 = \<lparr> gc_web = Some \<lparr> web_uri = Some ''https://a.example'', web_title = Some ''A again'' \<rparr> \<rparr>"

definition chunk_b :: groundingChunk where
  "chunk_b = \<lparr> gc_web = Some \<lparr> web_uri = Some ''https://b.example'', web_title = Some ''B'' \<rparr> \<rparr>"

definition chunk_untitled :: groundingChunk where
  "chunk_untitled = \<lparr> gc_web = Some \<lparr> web_uri = Some ''https://c.example'', web_title = None \<rparr> \<rparr>"

definition resp_segment :: response where
  "resp_segment =
     \<lparr> resp_text = Some ''Fog rolled in.'',
       resp_candidates =
         Some [\<lparr> cand_content = None,
                 cand_groundingMetadata =
                   Some \<lparr> gm_groundingChunks =
                            Some [chunk_a, chunk_untitled, chunk_b, chunk_a2] \<rparr> \<rparr>] \<rparr>"

definition gen_segment :: model where
  "gen_segment = (\<lambda>_. Inr resp_segment)"

definition resp_audio :: response where
  "resp_audio =
     \<lparr> resp_text = None,
       resp_candidates =
         Some [\<lparr> cand_content =
                   Some \<lparr> content_parts =
                            Some [\<lparr> part_inlineData =
                                      Some \<lparr> id_data = Some ''AAEC'',
                                             id_mimeType = Some ''audio/L16;rate=16000'' \<rparr> \<rparr>] \<rparr>,
                 cand_groundingMetadata = None \<rparr>] \<rparr>"

definition gen_audio :: model where
  "gen_audio = (\<lambda>_. Inr resp_audio)"

definition b64_ok :: "string \<Rightarrow> error + nat list" where
  "b64_ok s = Inr [0, 1, 2]"

definition wav_tag :: "nat list \<Rightarrow> int \<Rightarrow> nat list" where
  "wav_tag pcm rate = nat rate # pcm"

definition decode_ok :: "nat list \<Rightarrow> error + AudioBuffer" where
  "decode_ok wav = Inr \<lparr> ab_duration = 1, ab_samples = wav \<rparr>"

definition decode_bad :: "nat list \<Rightarrow> error + AudioBuffer" where
  "decode_bad wav = Inl (Rejected ''EncodingError'')"

definition seg_fog :: StorySegment where
  "seg_fog =
     \<lparr> seg_index = 2, seg_text = ''Fog rolled in.'', seg_audioBuffer = None,
       seg_sources = Some [\<lparr> src_title = ''A'', src_uri = ''https://a.example'' \<rparr>,
                           \<lparr> src_title = ''B'', src_uri = ''https://b.example'' \<rparr>] \<rparr>"

definition buf10 :: AudioBuffer where
  "buf10 = \<lparr> ab_duration = 10, ab_samples = [3, 1, 4] \<rparr>"

definition seg_one :: StorySegment where
  "seg_one = \<lparr> seg_index = 1, seg_text = ''Dusk.'', seg_audioBuffer = Some buf10,
               seg_sources = None \<rparr>"

definition seg_two :: StorySegment where
  "seg_two = \<lparr> seg_index = 2, seg_text = ''Fog.'', seg_audioBuffer = Some buf10,
               seg_sources = None \<rparr>"

definition seg_pending :: StorySegment where
  "seg_pending = \<lparr> seg_index = 1, seg_text = ''Dusk.'', seg_audioBuffer = None,
                   seg_sources = None \<rparr>"

definition props_ready :: Props where
  "props_ready =
     \<lparr> story = \<lparr> segments = [seg_one, seg_two], totalSegmentsEstimate = 2 \<rparr>,
       isBackgroundGenerating = False \<rparr>"

definition props_pending :: Props where
  "props_pending =
     \<lparr> story = \<lparr> segments = [seg_pending], totalSegmentsEstimate = 2 \<rparr>,
       isBackgroundGenerating = True \<rparr>"

definition ctx_running :: AudioContext where
  "ctx_running = \<lparr> ctx_state = Running, currentTime = 0 \<rparr>"

definition s_waiting :: Player where
  \<comment> \<open>playing was asked for while the first segment had no audio yet\<close>
  "s_waiting = (init props_pending ctx_running)\<lparr> isPlaying := True, isBuffering := True \<rparr>"

definition props_generating :: Props where
  \<comment> \<open>the last segment is there and the parent still reports generation\<close>
  "props_generating =
     \<lparr> story = \<lparr> segments = [seg_one], totalSegmentsEstimate = 1 \<rparr>,
       isBackgroundGenerating = True \<rparr>"

definition props_finished :: Props where
  "props_finished = props_generating\<lparr> isBackgroundGenerating := False \<rparr>"

definition gen_podcast_only :: model where
  \<comment> \<open>a model that answers the outline request of the podcast route and no other\<close>
  "gen_podcast_only r =
     (if r = outline_request route_podcast 3 then Inr resp_outline else Inl (Rejected ''400''))"

section \<open>The outline: fallback and length\<close>

lemma calculateTotalSegments_pos: "1 \<le> calculateTotalSegments durationSeconds"
  by (simp add: calculateTotalSegments_def)

lemma valid_array_length_int:
  "valid_array_length n \<longleftrightarrow> (\<exists>k. n = of_int k \<and> 0 \<le> k \<and> k \<le> int MAX_ARRAY_LENGTH)"
proof
  assume v: "valid_array_length n"
  then obtain k where e: "n = of_int k"
    by (auto simp: valid_array_length_def)
  from v have p: "0 \<le> n" and u: "n \<le> real MAX_ARRAY_LENGTH"
    by (simp_all add: valid_array_length_def)
  from p u have "0 \<le> k" and "k \<le> int MAX_ARRAY_LENGTH"
    unfolding e by simp_all
  with e show "\<exists>k. n = of_int k \<and> 0 \<le> k \<and> k \<le> int MAX_ARRAY_LENGTH"
    by blast
next
  assume "\<exists>k. n = of_int k \<and> 0 \<le> k \<and> k \<le> int MAX_ARRAY_LENGTH"
  then obtain k where "n = of_int k" and "0 \<le> k" and "k \<le> int MAX_ARRAY_LENGTH" by blast
  then show "valid_array_length n"
    by (simp add: valid_array_length_def)
qed

lemma array_fill_valid:
  "valid_array_length n \<Longrightarrow> array_fill n v = Inr (replicate (nat \<lfloor>n\<rfloor>) v)"
  by (simp add: array_fill_def)

lemma length_valid: "valid_array_length n \<Longrightarrow> real (nat \<lfloor>n\<rfloor>) = n"
  by (auto simp: valid_array_length_int)

lemma pad_outline_eq:
  assumes "n \<le> real MAX_ARRAY_LENGTH"
  shows "pad_outline outline n =
           Inr (outline @ replicate (nat \<lceil>n - real (length outline)\<rceil>) PAD_OUTLINE)"
  using assms
proof (induction outline n rule: pad_outline.induct)
  case (1 outline n)
  show ?case
  proof (cases "real (length outline) < n")
    case False
    then have "nat \<lceil>n - real (length outline)\<rceil> = 0" by simp
    with False show ?thesis by (subst pad_outline.simps) simp
  next
    case True
    with "1.prems" have "real (length outline) < real MAX_ARRAY_LENGTH" by simp
    then have lt: "\<not> MAX_ARRAY_LENGTH \<le> length outline" by simp
    have k: "nat \<lceil>n - real (length outline)\<rceil> =
        Suc (nat \<lceil>n - real (length (outline @ [PAD_OUTLINE]))\<rceil>)"
    proof -
      define c where "c = \<lceil>n - real (length outline)\<rceil>"
      have "0 < n - real (length outline)" using True by simp
      then have "0 < c" by (simp add: c_def)
      moreover have "\<lceil>n - real (length (outline @ [PAD_OUTLINE]))\<rceil> = c - 1"
        unfolding c_def by (simp add: algebra_simps) linarith
      ultimately show ?thesis
        unfolding c_def [symmetric] by simp
    qed
    have "pad_outline outline n = pad_outline (outline @ [PAD_OUTLINE]) n"
      using True lt by (subst pad_outline.simps) simp
    also have "\<dots> = Inr ((outline @ [PAD_OUTLINE]) @
        replicate (nat \<lceil>n - real (length (outline @ [PAD_OUTLINE]))\<rceil>) PAD_OUTLINE)"
      using "1.IH" [OF True lt "1.prems"] .
    also have "\<dots> = Inr (outline @ replicate (nat \<lceil>n - real (length outline)\<rceil>) PAD_OUTLINE)"
      unfolding k by (simp add: replicate_app_Cons_same)
    finally show ?thesis .
  qed
qed

lemma to_integer_valid: "valid_array_length n \<Longrightarrow> to_integer n = \<lfloor>n\<rfloor>"
  by (simp add: to_integer_def valid_array_length_def)

lemma slice0_valid: "valid_array_length n \<Longrightarrow> slice0 xs n = take (nat \<lfloor>n\<rfloor>) xs"
  by (auto simp: slice0_def to_integer_valid Let_def valid_array_length_def)

lemma pad_slice_valid:
  assumes "valid_array_length n"
  shows "pad_outline reply n =
           Inr (reply @ replicate (nat \<lfloor>n\<rfloor> - length reply) PAD_OUTLINE)"
proof -
  from assms obtain k where n: "n = of_int k" and "0 \<le> k" and "k \<le> int MAX_ARRAY_LENGTH"
    by (auto simp: valid_array_length_int)
  have "\<lceil>n - real (length reply)\<rceil> = k - int (length reply)"
    unfolding n by (simp add: ceiling_eq_iff)
  then have "nat \<lceil>n - real (length reply)\<rceil> = nat \<lfloor>n\<rfloor> - length reply"
    unfolding n by simp
  moreover have "n \<le> real MAX_ARRAY_LENGTH"
    using assms by (simp add: valid_array_length_def)
  ultimately show ?thesis by (simp add: pad_outline_eq)
qed

lemma outline_try_failure:
  assumes "(\<exists>e. gen (outline_request route n) = Inl e) \<or>
     (\<exists>resp. gen (outline_request route n) = Inr resp \<and>
        (\<not> truthy (trimmed_text resp) \<or>
         (\<exists>t. trimmed_text resp = Some t \<and> (\<forall>xs. parse t = Inr (JArray xs) \<longrightarrow> xs = []))))"
  shows "\<exists>e. outline_try gen parse route n = Inl e"
proof (cases "gen (outline_request route n)")
  case (Inl e)
  then show ?thesis by (simp add: outline_try_def)
next
  case (Inr resp)
  show ?thesis
  proof (cases "trimmed_text resp")
    case None
    with Inr show ?thesis by (simp add: outline_try_def)
  next
    case (Some t)
    show ?thesis
    proof (cases "t = []")
      case True
      with Inr Some show ?thesis by (simp add: outline_try_def)
    next
      case False
      with assms Inr Some have na: "\<forall>xs. parse t = Inr (JArray xs) \<longrightarrow> xs = []" by simp
      show ?thesis
      proof (cases "parse t")
        case (Inl e)
        with Inr Some False show ?thesis by (simp add: outline_try_def)
      next
        case r: (Inr j)
        show ?thesis
        proof (cases j)
          case (JArray xs)
          with na r have "xs = []" by simp
          with Inr Some False r JArray show ?thesis by (simp add: outline_try_def)
        qed (use Inr Some False r in \<open>simp_all add: outline_try_def\<close>)
      qed
    qed
  qed
qed

lemma outline_try_success:
  assumes "gen (outline_request route n) = Inr resp" and "trimmed_text resp = Some t"
    and "t \<noteq> []" and "parse t = Inr (JArray reply)" and "reply \<noteq> []"
  shows "outline_try gen parse route n =
           (case pad_outline reply n of
              Inl e \<Rightarrow> Inl e
            | Inr padded \<Rightarrow> Inr (slice0 padded n))"
  using assms by (simp add: outline_try_def)

lemma outline_try_length:
  assumes "valid_array_length n" and "outline_try gen parse route n = Inr outline"
  shows "real (length outline) = n"
proof -
  from assms(2) obtain reply where "reply \<noteq> []"
    and "outline = slice0 (reply @ replicate (nat \<lfloor>n\<rfloor> - length reply) PAD_OUTLINE) n"
    unfolding outline_try_def
    by (auto split: sum.splits option.splits if_splits json.splits
        simp: pad_slice_valid [OF assms(1)])
  then have "length outline = nat \<lfloor>n\<rfloor>"
    by (simp add: slice0_valid [OF assms(1)])
  then show ?thesis by (simp add: length_valid [OF assms(1)])
qed

text \<open>
  Claim C1, as amended. For every route and every \<open>totalSegments\<close> that is a valid array
  length (an integer from 0 to \<open>2^32 - 1\<close>): when outline generation fails (the model call
  is rejected, or the reply has no text, or the reply is not a non-empty array),
  \<^verbatim>\<open>generateStoryOutline\<close> does not throw and returns \<open>totalSegments\<close> copies of the
  fallback placeholder.
\<close>
theorem generateStoryOutline_fallback:
  assumes "valid_array_length totalSegments"
    and "(\<exists>e. gen (outline_request route totalSegments) = Inl e) \<or>
     (\<exists>resp. gen (outline_request route totalSegments) = Inr resp \<and>
        (\<not> truthy (trimmed_text resp) \<or>
         (\<exists>t. trimmed_text resp = Some t \<and> (\<forall>xs. parse t = Inr (JArray xs) \<longrightarrow> xs = []))))"
  shows "generateStoryOutline gen parse route totalSegments =
           Inr (replicate (nat \<lfloor>totalSegments\<rfloor>) FALLBACK_OUTLINE) \<and>
         real (nat \<lfloor>totalSegments\<rfloor>) = totalSegments"
proof -
  have "\<exists>e. outline_try gen parse route totalSegments = Inl e"
    using assms(2) by (rule outline_try_failure [where gen = gen and parse = parse])
  then obtain e where "outline_try gen parse route totalSegments = Inl e" ..
  then show ?thesis
    using assms(1) by (simp add: generateStoryOutline_def array_fill_valid length_valid)
qed

text \<open>The model is down and three chapters are asked for: three placeholders come back.\<close>
theorem generateStoryOutline_fallback_witness:
  "generateStoryOutline gen_down parse_outline route0 3 =
     Inr [FALLBACK_OUTLINE, FALLBACK_OUTLINE, FALLBACK_OUTLINE]"
proof -
  have v: "valid_array_length 3"
    by (simp add: valid_array_length_def MAX_ARRAY_LENGTH_def)
  have "\<exists>e. gen_down (outline_request route0 3) = Inl e" by (simp add: gen_down_def)
  then show ?thesis
    using generateStoryOutline_fallback [where totalSegments = 3 and gen = gen_down
        and route = route0 and parse = parse_outline, OF v]
    by (simp add: numeral_3_eq_3)
qed

text \<open>
  Claim C1 as stated, for every \<open>totalSegments\<close>, fails where \<open>totalSegments\<close> is not a
  valid array length. At \<open>- 1\<close>, at \<open>2^32\<close> and at \<open>5 / 2\<close> the model call is rejected, and
  \<^verbatim>\<open>Array(totalSegments)\<close> in the \<^verbatim>\<open>catch\<close> block throws a RangeError.
\<close>
theorem generateStoryOutline_invalid_length_throws:
  "gen_down (outline_request route0 (- 1)) = Inl (Rejected ''503'') \<and>
   generateStoryOutline gen_down parse_outline route0 (- 1) = Inl RangeError \<and>
   gen_down (outline_request route0 4294967296) = Inl (Rejected ''503'') \<and>
   generateStoryOutline gen_down parse_outline route0 4294967296 = Inl RangeError \<and>
   gen_down (outline_request route0 (5 / 2)) = Inl (Rejected ''503'') \<and>
   generateStoryOutline gen_down parse_outline route0 (5 / 2) = Inl RangeError"
  by (simp add: gen_down_def generateStoryOutline_def outline_try_def array_fill_def
      valid_array_length_def MAX_ARRAY_LENGTH_def)

text \<open>
  Claim C9, as amended. For every \<open>totalSegments \<ge> 1\<close> that is a valid array length (an
  integer up to \<open>2^32 - 1\<close>) the function returns an array, and its length is exactly
  \<open>totalSegments\<close>: on the success path the reply, padded with the fixed string when shorter
  and cut when longer; on the failure path \<open>totalSegments\<close> placeholders.
\<close>
theorem generateStoryOutline_length:
  assumes "valid_array_length totalSegments" and "1 \<le> totalSegments"
  shows "(\<exists>outline. generateStoryOutline gen parse route totalSegments = Inr outline \<and>
            real (length outline) = totalSegments) \<and>
         (\<forall>resp t reply.
            gen (outline_request route totalSegments) = Inr resp \<and>
            trimmed_text resp = Some t \<and> t \<noteq> [] \<and>
            parse t = Inr (JArray reply) \<and> reply \<noteq> [] \<longrightarrow>
            generateStoryOutline gen parse route totalSegments =
              Inr (take (nat \<lfloor>totalSegments\<rfloor>)
                    (reply @ replicate (nat \<lfloor>totalSegments\<rfloor> - length reply) PAD_OUTLINE))) \<and>
         ((\<exists>e. outline_try gen parse route totalSegments = Inl e) \<longrightarrow>
            generateStoryOutline gen parse route totalSegments =
              Inr (replicate (nat \<lfloor>totalSegments\<rfloor>) FALLBACK_OUTLINE))"
proof (intro conjI allI impI)
  note v = assms(1)
  show "\<exists>outline. generateStoryOutline gen parse route totalSegments = Inr outline \<and>
            real (length outline) = totalSegments"
  proof (cases "outline_try gen parse route totalSegments")
    case (Inl e)
    then show ?thesis
      using v by (simp add: generateStoryOutline_def array_fill_valid length_valid)
  next
    case (Inr outline)
    then show ?thesis
      using outline_try_length [OF v Inr] by (simp add: generateStoryOutline_def)
  qed
next
  fix resp t reply
  assume h: "gen (outline_request route totalSegments) = Inr resp \<and>
            trimmed_text resp = Some t \<and> t \<noteq> [] \<and>
            parse t = Inr (JArray reply) \<and> reply \<noteq> []"
  have "outline_try gen parse route totalSegments =
      (case pad_outline reply totalSegments of
         Inl e \<Rightarrow> Inl e
       | Inr padded \<Rightarrow> Inr (slice0 padded totalSegments))"
    using h by (intro outline_try_success [where resp = resp and t = t]) simp_all
  then show "generateStoryOutline gen parse route totalSegments =
              Inr (take (nat \<lfloor>totalSegments\<rfloor>)
                    (reply @ replicate (nat \<lfloor>totalSegments\<rfloor> - length reply) PAD_OUTLINE))"
    by (simp add: generateStoryOutline_def pad_slice_valid [OF assms(1)]
        slice0_valid [OF assms(1)])
next
  assume "\<exists>e. outline_try gen parse route totalSegments = Inl e"
  then show "generateStoryOutline gen parse route totalSegments =
              Inr (replicate (nat \<lfloor>totalSegments\<rfloor>) FALLBACK_OUTLINE)"
    using assms(1) by (auto simp: generateStoryOutline_def array_fill_valid)
qed

text \<open>A reply of one chapter for three is padded; a failing call yields three.\<close>
theorem generateStoryOutline_length_witness:
  "generateStoryOutline gen_outline parse_outline route0 3 =
     Inr [JNumber 7, PAD_OUTLINE, PAD_OUTLINE] \<and>
   (\<exists>outline. generateStoryOutline gen_down parse_outline route0 3 = Inr outline \<and>
      real (length outline) = 3)"
proof -
  have v: "valid_array_length 3"
    by (simp add: valid_array_length_def MAX_ARRAY_LENGTH_def)
  have h: "(1::real) \<le> 3" by simp
  note a = generateStoryOutline_length [where totalSegments = 3 and gen = gen_outline
      and parse = parse_outline and route = route0, OF v h]
  note b = generateStoryOutline_length [where totalSegments = 3 and gen = gen_down
      and parse = parse_outline and route = route0, OF v h]
  have t: "trimmed_text resp_outline = Some ''[7]''"
    by (simp add: trimmed_text_def resp_outline_def trim_def is_space_def)
  have "gen_outline (outline_request route0 3) = Inr resp_outline \<and>
      trimmed_text resp_outline = Some ''[7]'' \<and> ''[7]'' \<noteq> [] \<and>
      parse_outline ''[7]'' = Inr (JArray [JNumber 7]) \<and> [JNumber 7] \<noteq> []"
    by (simp add: gen_outline_def t parse_outline_def)
  with a have "generateStoryOutline gen_outline parse_outline route0 3 =
      Inr (take (nat \<lfloor>3::real\<rfloor>)
        ([JNumber 7] @ replicate (nat \<lfloor>3::real\<rfloor> - length [JNumber 7]) PAD_OUTLINE))"
    by blast
  then have "generateStoryOutline gen_outline parse_outline route0 3 =
     Inr [JNumber 7, PAD_OUTLINE, PAD_OUTLINE]"
    by (simp add: numeral_3_eq_3)
  with b show ?thesis by blast
qed

text \<open>
  Claim C9 as stated, for every \<open>totalSegments \<ge> 1\<close>, fails beyond the valid array lengths.
  At \<open>2^32\<close> the failure path returns no array: \<^verbatim>\<open>Array(2^32)\<close> throws a RangeError. At
  \<open>5 / 2\<close> the success path returns an array of length 2.
\<close>
theorem generateStoryOutline_length_fails:
  "(1::real) \<le> 4294967296 \<and>
   gen_down (outline_request route0 4294967296) = Inl (Rejected ''503'') \<and>
   generateStoryOutline gen_down parse_outline route0 4294967296 = Inl RangeError \<and>
   generateStoryOutline gen_outline parse_outline route0 (5 / 2) =
     Inr [JNumber 7, PAD_OUTLINE] \<and>
   real (length [JNumber 7, PAD_OUTLINE]) \<noteq> 5 / 2"
proof -
  have t: "trimmed_text resp_outline = Some ''[7]''"
    by (simp add: trimmed_text_def resp_outline_def trim_def is_space_def)
  have p: "pad_outline [JNumber 7] (5 / 2) = Inr [JNumber 7, PAD_OUTLINE, PAD_OUTLINE]"
    by (simp add: pad_outline.simps MAX_ARRAY_LENGTH_def)
  have "generateStoryOutline gen_outline parse_outline route0 (5 / 2) =
     Inr [JNumber 7, PAD_OUTLINE]"
    by (simp add: generateStoryOutline_def outline_try_def gen_outline_def t parse_outline_def p
        slice0_def to_integer_def)
  then show ?thesis
    by (simp add: gen_down_def generateStoryOutline_def outline_try_def array_fill_def
        valid_array_length_def MAX_ARRAY_LENGTH_def)
qed

section \<open>The sources of a segment\<close>

lemma find_uri_None: "find (\<lambda>s. src_uri s = u) acc = None \<longleftrightarrow> u \<notin> src_uri ` set acc"
  by (auto simp: find_None_iff)

lemma add_source_uris:
  "src_uri ` set (add_source acc c) = src_uri ` set acc \<union> {u. \<exists>ti. has_uri_title c u ti}"
  unfolding add_source_def has_uri_title_def
  by (auto split: option.splits simp: find_uri_None)

lemma add_source_distinct:
  "distinct (map src_uri acc) \<Longrightarrow> distinct (map src_uri (add_source acc c))"
  unfolding add_source_def
  by (auto split: option.splits simp: find_uri_None)

lemma add_source_mem:
  "s \<in> set (add_source acc c) \<Longrightarrow> s \<in> set acc \<or> has_uri_title c (src_uri s) (src_title s)"
  unfolding add_source_def has_uri_title_def
  by (auto split: option.splits if_splits)

lemma foldl_add_source_uris:
  "src_uri ` set (foldl add_source acc cs) =
     src_uri ` set acc \<union> {u. \<exists>c\<in>set cs. \<exists>ti. has_uri_title c u ti}"
proof (induction cs arbitrary: acc)
  case Nil
  then show ?case by simp
next
  case (Cons c cs)
  have "src_uri ` set (foldl add_source (add_source acc c) cs) =
      (src_uri ` set acc \<union> {u. \<exists>ti. has_uri_title c u ti}) \<union>
      {u. \<exists>c\<in>set cs. \<exists>ti. has_uri_title c u ti}"
    by (simp only: Cons.IH add_source_uris)
  also have "\<dots> = src_uri ` set acc \<union> {u. \<exists>c'\<in>set (c # cs). \<exists>ti. has_uri_title c' u ti}"
    by auto
  finally show ?case by simp
qed

lemma foldl_add_source_distinct:
  "distinct (map src_uri acc) \<Longrightarrow> distinct (map src_uri (foldl add_source acc cs))"
  by (induction cs arbitrary: acc) (simp_all add: add_source_distinct)

lemma foldl_add_source_mem:
  "s \<in> set (foldl add_source acc cs) \<Longrightarrow>
   s \<in> set acc \<or> (\<exists>c\<in>set cs. has_uri_title c (src_uri s) (src_title s))"
proof (induction cs arbitrary: acc)
  case Nil
  then show ?case by simp
next
  case (Cons c cs)
  from Cons.prems have "s \<in> set (foldl add_source (add_source acc c) cs)" by simp
  from Cons.IH [OF this] show ?case
    using add_source_mem [of s acc c] by auto
qed

lemma foldl_add_source:
  "distinct (map src_uri acc) \<Longrightarrow>
   distinct (map src_uri (foldl add_source acc cs)) \<and>
   src_uri ` set (foldl add_source acc cs) =
     src_uri ` set acc \<union> {u. \<exists>c\<in>set cs. \<exists>ti. has_uri_title c u ti} \<and>
   (\<forall>s\<in>set (foldl add_source acc cs).
      s \<in> set acc \<or> (\<exists>c\<in>set cs. has_uri_title c (src_uri s) (src_title s)))"
  using foldl_add_source_distinct [of acc cs] foldl_add_source_uris [of acc cs]
    foldl_add_source_mem [of _ acc cs]
  by blast

lemma extract_sources_props:
  "distinct (map src_uri (extract_sources r)) \<and>
   src_uri ` set (extract_sources r) =
     {u. \<exists>c\<in>set (case grounding_chunks r of None \<Rightarrow> [] | Some cs \<Rightarrow> cs).
           \<exists>ti. has_uri_title c u ti} \<and>
   (\<forall>s\<in>set (extract_sources r).
      \<exists>c\<in>set (case grounding_chunks r of None \<Rightarrow> [] | Some cs \<Rightarrow> cs).
        has_uri_title c (src_uri s) (src_title s))"
proof (cases "grounding_chunks r")
  case None
  then show ?thesis by (simp add: extract_sources_def)
next
  case (Some cs)
  show ?thesis
    using foldl_add_source [of "[]" cs] by (simp add: extract_sources_def Some)
qed

lemma generateSegment_Inr:
  assumes "generateSegment gen route i n ol ctx = Inr seg"
  shows "\<exists>resp t. gen (segment_request route i n ol ctx) = Inr resp \<and>
     trimmed_text resp = Some t \<and> t \<noteq> [] \<and>
     seg = \<lparr> seg_index = i, seg_text = t, seg_audioBuffer = None,
             seg_sources = (if extract_sources resp \<noteq> [] then Some (extract_sources resp)
                            else None) \<rparr>"
proof (cases "gen (segment_request route i n ol ctx)")
  case (Inl e)
  with assms show ?thesis by (simp add: generateSegment_def)
next
  case (Inr resp)
  show ?thesis
  proof (cases "trimmed_text resp")
    case None
    with assms Inr show ?thesis by (simp add: generateSegment_def)
  next
    case (Some t)
    show ?thesis
    proof (cases "t = []")
      case True
      with assms Inr Some show ?thesis by (simp add: generateSegment_def)
    next
      case False
      with assms Inr Some show ?thesis by (simp add: generateSegment_def Let_def)
    qed
  qed
qed

text \<open>
  Claim C7. In a segment that \<^verbatim>\<open>generateSegment\<close> returns, no two sources have the same
  URI; the URIs of the sources are exactly the URIs of the grounding chunks that have both
  a web URI and a web title (present and not empty); every source carries the title and
  the URI of such a chunk; and \<open>sources\<close> is undefined exactly when there is no such chunk.
\<close>
theorem generateSegment_sources:
  assumes "generateSegment gen route i n ol ctx = Inr seg"
  shows "\<exists>resp chunks.
           gen (segment_request route i n ol ctx) = Inr resp \<and>
           chunks = (case grounding_chunks resp of None \<Rightarrow> [] | Some cs \<Rightarrow> cs) \<and>
           (seg_sources seg = None \<longleftrightarrow> (\<forall>c\<in>set chunks. \<forall>u ti. \<not> has_uri_title c u ti)) \<and>
           (\<forall>ss. seg_sources seg = Some ss \<longrightarrow>
              distinct (map src_uri ss) \<and>
              src_uri ` set ss = {u. \<exists>c\<in>set chunks. \<exists>ti. has_uri_title c u ti} \<and>
              (\<forall>s\<in>set ss. \<exists>c\<in>set chunks. has_uri_title c (src_uri s) (src_title s)))"
proof -
  from generateSegment_Inr [OF assms] obtain resp t where
    g: "gen (segment_request route i n ol ctx) = Inr resp" and
    sg: "seg = \<lparr> seg_index = i, seg_text = t, seg_audioBuffer = None,
             seg_sources = (if extract_sources resp \<noteq> [] then Some (extract_sources resp)
                            else None) \<rparr>"
    by blast
  define chunks where "chunks = (case grounding_chunks resp of None \<Rightarrow> [] | Some cs \<Rightarrow> cs)"
  define xs where "xs = extract_sources resp"
  have s: "seg_sources seg = (if xs \<noteq> [] then Some xs else None)"
    unfolding xs_def by (subst sg) (rule StorySegment.select_convs)
  have p: "distinct (map src_uri xs) \<and>
      src_uri ` set xs = {u. \<exists>c\<in>set chunks. \<exists>ti. has_uri_title c u ti} \<and>
      (\<forall>s\<in>set xs. \<exists>c\<in>set chunks. has_uri_title c (src_uri s) (src_title s))"
    using extract_sources_props [of resp] unfolding chunks_def xs_def .
  note p1 = p [THEN conjunct1] and p2 = p [THEN conjunct2, THEN conjunct1]
    and p3 = p [THEN conjunct2, THEN conjunct2]
  have a: "seg_sources seg = None \<longleftrightarrow> (\<forall>c\<in>set chunks. \<forall>u ti. \<not> has_uri_title c u ti)"
  proof
    assume "seg_sources seg = None"
    then have "xs = []" using s by (simp split: if_splits)
    then have "{u. \<exists>c\<in>set chunks. \<exists>ti. has_uri_title c u ti} = {}"
      using p2 by simp
    then have "\<forall>u. \<not> (\<exists>c\<in>set chunks. \<exists>ti. has_uri_title c u ti)"
      by simp
    then show "\<forall>c\<in>set chunks. \<forall>u ti. \<not> has_uri_title c u ti" by blast
  next
    assume "\<forall>c\<in>set chunks. \<forall>u ti. \<not> has_uri_title c u ti"
    then have "\<forall>u. \<not> (\<exists>c\<in>set chunks. \<exists>ti. has_uri_title c u ti)" by blast
    then have "{u. \<exists>c\<in>set chunks. \<exists>ti. has_uri_title c u ti} = {}"
      by simp
    then have "src_uri ` set xs = {}" using p2 by simp
    then have "xs = []" by simp
    then show "seg_sources seg = None" using s by simp
  qed
  have b: "\<forall>ss. seg_sources seg = Some ss \<longrightarrow>
              distinct (map src_uri ss) \<and>
              src_uri ` set ss = {u. \<exists>c\<in>set chunks. \<exists>ti. has_uri_title c u ti} \<and>
              (\<forall>s\<in>set ss. \<exists>c\<in>set chunks. has_uri_title c (src_uri s) (src_title s))"
  proof (intro allI impI)
    fix ss assume "seg_sources seg = Some ss"
    then have "ss = xs" using s by (simp split: if_splits)
    then show "distinct (map src_uri ss) \<and>
              src_uri ` set ss = {u. \<exists>c\<in>set chunks. \<exists>ti. has_uri_title c u ti} \<and>
              (\<forall>s\<in>set ss. \<exists>c\<in>set chunks. has_uri_title c (src_uri s) (src_title s))"
      using p1 p2 p3 by simp
  qed
  show ?thesis
    apply (rule exI [of _ resp])
    apply (rule exI [of _ chunks])
    apply (intro conjI)
       apply (rule g)
      apply (rule chunks_def)
     apply (rule a)
    apply (rule b)
    done
qed

text \<open>
  Four chunks, two of them with the same URI and one without a title, give two sources.
\<close>
theorem generateSegment_sources_witness:
  "generateSegment gen_segment route_podcast 2 5 ''The wharf'' ''Earlier'' = Inr seg_fog \<and>
   (\<exists>resp chunks.
      gen_segment (segment_request route_podcast 2 5 ''The wharf'' ''Earlier'') = Inr resp \<and>
      chunks = (case grounding_chunks resp of None \<Rightarrow> [] | Some cs \<Rightarrow> cs) \<and>
      (seg_sources seg_fog = None \<longleftrightarrow> (\<forall>c\<in>set chunks. \<forall>u ti. \<not> has_uri_title c u ti)) \<and>
      (\<forall>ss. seg_sources seg_fog = Some ss \<longrightarrow>
         distinct (map src_uri ss) \<and>
         src_uri ` set ss = {u. \<exists>c\<in>set chunks. \<exists>ti. has_uri_title c u ti} \<and>
         (\<forall>s\<in>set ss. \<exists>c\<in>set chunks. has_uri_title c (src_uri s) (src_title s))))"
proof -
  have e: "extract_sources resp_segment =
      [\<lparr> src_title = ''A'', src_uri = ''https://a.example'' \<rparr>,
       \<lparr> src_title = ''B'', src_uri = ''https://b.example'' \<rparr>]"
    by (simp add: extract_sources_def grounding_chunks_def resp_segment_def add_source_def
        chunk_a_def chunk_a2_def chunk_b_def chunk_untitled_def)
  have t: "trimmed_text resp_segment = Some ''Fog rolled in.''"
    by (simp add: trimmed_text_def resp_segment_def trim_def is_space_def)
  have g: "generateSegment gen_segment route_podcast 2 5 ''The wharf'' ''Earlier'' = Inr seg_fog"
    by (simp add: generateSegment_def gen_segment_def t e seg_fog_def)
  show ?thesis
    using g generateSegment_sources [OF g] by (rule conjI)
qed

section \<open>Failures of segment and audio generation\<close>

lemma generateSegment_Inl:
  "(\<exists>e. generateSegment gen route i n ol ctx = Inl e) \<longleftrightarrow>
   (\<exists>e. gen (segment_request route i n ol ctx) = Inl e) \<or>
   (\<exists>resp. gen (segment_request route i n ol ctx) = Inr resp \<and> \<not> truthy (trimmed_text resp))"
proof (cases "gen (segment_request route i n ol ctx)")
  case (Inl e)
  then show ?thesis by (simp add: generateSegment_def)
next
  case (Inr resp)
  show ?thesis
  proof (cases "trimmed_text resp")
    case None
    with Inr show ?thesis by (simp add: generateSegment_def)
  next
    case (Some t)
    with Inr show ?thesis by (simp add: generateSegment_def Let_def)
  qed
qed

lemma generateSegment_rethrows:
  "gen (segment_request route i n ol ctx) = Inl e \<Longrightarrow>
   generateSegment gen route i n ol ctx = Inl e"
  by (simp add: generateSegment_def)

lemma generateSegmentAudio_Inl:
  "(\<exists>e. generateSegmentAudio gen base64ToArrayBuffer pcmToWav decodeAudioData tx voice = Inl e) \<longleftrightarrow>
   (\<exists>e. gen (speech_request tx voice) = Inl e) \<or>
   (\<exists>resp. gen (speech_request tx voice) = Inr resp \<and>
      (\<not> truthy (audio_data resp) \<or>
       (\<exists>d. audio_data resp = Some d \<and>
          ((\<exists>e. base64ToArrayBuffer d = Inl e) \<or>
           (\<exists>pcm e. base64ToArrayBuffer d = Inr pcm \<and>
              decodeAudioData (pcmToWav pcm (sample_rate (mime_type resp))) = Inl e)))))"
proof (cases "gen (speech_request tx voice)")
  case (Inl e)
  then show ?thesis by (simp add: generateSegmentAudio_def)
next
  case (Inr resp)
  show ?thesis
  proof (cases "audio_data resp")
    case None
    with Inr show ?thesis by (simp add: generateSegmentAudio_def)
  next
    case (Some d)
    show ?thesis
    proof (cases "d = []")
      case True
      with Inr Some show ?thesis by (simp add: generateSegmentAudio_def)
    next
      case False
      show ?thesis
      proof (cases "base64ToArrayBuffer d")
        case (Inl e)
        with Inr Some False show ?thesis by (simp add: generateSegmentAudio_def Let_def)
      next
        case r: (Inr pcm)
        with Inr Some False show ?thesis by (simp add: generateSegmentAudio_def Let_def)
      qed
    qed
  qed
qed

lemma generateSegmentAudio_rethrows:
  "gen (speech_request tx voice) = Inl e \<Longrightarrow>
   generateSegmentAudio gen base64ToArrayBuffer pcmToWav decodeAudioData tx voice = Inl e"
  by (simp add: generateSegmentAudio_def)

text \<open>
  Claim C2, as amended. \<^verbatim>\<open>generateSegment\<close> raises exactly when the model call fails or
  yields no text, and \<^verbatim>\<open>generateSegmentAudio\<close> raises exactly when the model call fails,
  yields no audio data, or the decoding of the payload (base64, then
  \<^verbatim>\<open>decodeAudioData\<close>) fails. A failure of the model call reaches the caller as it is;
  neither function returns a value in its place.
\<close>
theorem segment_and_audio_raise_iff:
  "((\<exists>e. generateSegment gen route i n ol ctx = Inl e) \<longleftrightarrow>
      (\<exists>e. gen (segment_request route i n ol ctx) = Inl e) \<or>
      (\<exists>resp. gen (segment_request route i n ol ctx) = Inr resp \<and>
         \<not> truthy (trimmed_text resp))) \<and>
   (\<forall>e. gen (segment_request route i n ol ctx) = Inl e \<longrightarrow>
      generateSegment gen route i n ol ctx = Inl e) \<and>
   ((\<exists>e. generateSegmentAudio gen base64ToArrayBuffer pcmToWav decodeAudioData tx voice = Inl e) \<longleftrightarrow>
      (\<exists>e. gen (speech_request tx voice) = Inl e) \<or>
      (\<exists>resp. gen (speech_request tx voice) = Inr resp \<and>
         (\<not> truthy (audio_data resp) \<or>
          (\<exists>d. audio_data resp = Some d \<and>
             ((\<exists>e. base64ToArrayBuffer d = Inl e) \<or>
              (\<exists>pcm e. base64ToArrayBuffer d = Inr pcm \<and>
                 decodeAudioData (pcmToWav pcm (sample_rate (mime_type resp))) = Inl e)))))) \<and>
   (\<forall>e. gen (speech_request tx voice) = Inl e \<longrightarrow>
      generateSegmentAudio gen base64ToArrayBuffer pcmToWav decodeAudioData tx voice = Inl e)"
  apply (intro conjI allI impI)
     apply (rule generateSegment_Inl)
    apply (erule generateSegment_rethrows)
   apply (rule generateSegmentAudio_Inl)
  apply (erule generateSegmentAudio_rethrows)
  done

text \<open>
  Claim C2 as stated fails for \<^verbatim>\<open>generateSegmentAudio\<close>: here the model call succeeds
  and yields audio data, and the function still raises, because \<^verbatim>\<open>decodeAudioData\<close>
  rejects the container.
\<close>
theorem audio_raises_on_decode_failure:
  "gen_audio (speech_request ''Fog rolled in.'' ''Kore'') = Inr resp_audio \<and>
   audio_data resp_audio = Some ''AAEC'' \<and>
   generateSegmentAudio gen_audio b64_ok wav_tag decode_bad ''Fog rolled in.'' ''Kore'' =
     Inl (Rejected ''EncodingError'')"
  by (simp add: gen_audio_def audio_data_def first_inlineData_def resp_audio_def
      generateSegmentAudio_def b64_ok_def decode_bad_def)

text \<open>With the model down, both functions hand the rejection to the caller.\<close>
theorem segment_and_audio_raise_iff_witness:
  "generateSegment gen_down route0 1 5 ''The wharf'' [] = Inl (Rejected ''503'') \<and>
   generateSegmentAudio gen_down b64_ok wav_tag decode_ok ''Fog rolled in.'' ''Kore'' =
     Inl (Rejected ''503'')"
proof -
  note t = segment_and_audio_raise_iff [where gen = gen_down and route = route0 and i = 1
      and n = 5 and ol = "''The wharf''" and ctx = "[]" and base64ToArrayBuffer = b64_ok and pcmToWav = wav_tag
      and decodeAudioData = decode_ok and tx = "''Fog rolled in.''" and voice = "''Kore''"]
  have a: "gen_down (segment_request route0 1 5 ''The wharf'' []) = Inl (Rejected ''503'')"
    by (simp add: gen_down_def)
  have b: "gen_down (speech_request ''Fog rolled in.'' ''Kore'') = Inl (Rejected ''503'')"
    by (simp add: gen_down_def)
  from t a b show ?thesis by blast
qed

section \<open>Model and search tool\<close>

text \<open>
  Claim C10. In the request of \<^verbatim>\<open>generateStoryOutline\<close> and in the request of
  \<^verbatim>\<open>generateSegment\<close>, the search tool is asked for, and the model is
  \<^verbatim>\<open>gemini-3-pro-preview\<close> rather than \<^verbatim>\<open>gemini-3-flash-preview\<close>, if and only if the
  story style of the route is \<^verbatim>\<open>HISTORY_PODCAST\<close>. Each function sends that request to
  the model: the outline is built from the reply to that very request, and is the fallback
  when that request is rejected; the segment is the one built from the reply to that very
  request, and the error of that request when it is rejected.
\<close>
theorem model_and_search_by_style:
  "(req_tools (outline_request route totalSegments) = Some [GoogleSearch] \<longleftrightarrow>
      storyStyle route = ''HISTORY_PODCAST'') \<and>
   (req_tools (outline_request route totalSegments) = None \<longleftrightarrow>
      storyStyle route \<noteq> ''HISTORY_PODCAST'') \<and>
   (req_model (outline_request route totalSegments) = ''gemini-3-pro-preview'' \<longleftrightarrow>
      storyStyle route = ''HISTORY_PODCAST'') \<and>
   (req_model (outline_request route totalSegments) = ''gemini-3-flash-preview'' \<longleftrightarrow>
      storyStyle route \<noteq> ''HISTORY_PODCAST'') \<and>
   (req_tools (segment_request route i n ol ctx) = Some [GoogleSearch] \<longleftrightarrow>
      storyStyle route = ''HISTORY_PODCAST'') \<and>
   (req_tools (segment_request route i n ol ctx) = None \<longleftrightarrow>
      storyStyle route \<noteq> ''HISTORY_PODCAST'') \<and>
   (req_model (segment_request route i n ol ctx) = ''gemini-3-pro-preview'' \<longleftrightarrow>
      storyStyle route = ''HISTORY_PODCAST'') \<and>
   (req_model (segment_request route i n ol ctx) = ''gemini-3-flash-preview'' \<longleftrightarrow>
      storyStyle route \<noteq> ''HISTORY_PODCAST'') \<and>
   (\<forall>resp t reply.
      gen (outline_request route totalSegments) = Inr resp \<and>
      trimmed_text resp = Some t \<and> t \<noteq> [] \<and>
      parse t = Inr (JArray reply) \<and> reply \<noteq> [] \<longrightarrow>
      generateStoryOutline gen parse route totalSegments =
        (case pad_outline reply totalSegments of
           Inl e \<Rightarrow> array_fill totalSegments FALLBACK_OUTLINE
         | Inr padded \<Rightarrow> Inr (slice0 padded totalSegments))) \<and>
   ((\<exists>e. gen (outline_request route totalSegments) = Inl e) \<longrightarrow>
      generateStoryOutline gen parse route totalSegments =
        array_fill totalSegments FALLBACK_OUTLINE) \<and>
   generateSegment gen route i n ol ctx =
     (case gen (segment_request route i n ol ctx) of
        Inl e \<Rightarrow> Inl e
      | Inr resp \<Rightarrow> generateSegment (\<lambda>_. Inr resp) route i n ol ctx)"
proof -
  have a: "generateStoryOutline gen parse route totalSegments =
        (case pad_outline reply totalSegments of
           Inl e \<Rightarrow> array_fill totalSegments FALLBACK_OUTLINE
         | Inr padded \<Rightarrow> Inr (slice0 padded totalSegments))"
    if h: "gen (outline_request route totalSegments) = Inr resp \<and>
      trimmed_text resp = Some t \<and> t \<noteq> [] \<and>
      parse t = Inr (JArray reply) \<and> reply \<noteq> []" for resp t reply
  proof -
    have "outline_try gen parse route totalSegments =
      (case pad_outline reply totalSegments of
         Inl e \<Rightarrow> Inl e
       | Inr padded \<Rightarrow> Inr (slice0 padded totalSegments))"
      using h by (intro outline_try_success [where resp = resp and t = t]) simp_all
    then show ?thesis
      by (cases "pad_outline reply totalSegments") (simp_all add: generateStoryOutline_def)
  qed
  have f: "generateStoryOutline gen parse route totalSegments =
        array_fill totalSegments FALLBACK_OUTLINE"
    if "\<exists>e. gen (outline_request route totalSegments) = Inl e"
    using that by (auto simp: generateStoryOutline_def outline_try_def)
  have b: "generateSegment gen route i n ol ctx =
     (case gen (segment_request route i n ol ctx) of
        Inl e \<Rightarrow> Inl e
      | Inr resp \<Rightarrow> generateSegment (\<lambda>_. Inr resp) route i n ol ctx)"
    by (cases "gen (segment_request route i n ol ctx)") (simp_all add: generateSegment_def)
  show ?thesis
    apply (intro conjI allI impI)
              apply (simp_all add: outline_request_def segment_request_def HISTORY_PODCAST_def
        Let_def)[8]
      apply (erule a)
     apply (erule f)
    apply (rule b)
    done
qed

text \<open>
  A podcast route asks for the pro model and search, a noir route for neither; and a
  model that answers nothing but the podcast outline request gets its reply into the
  outline.
\<close>
theorem model_and_search_by_style_witness:
  "req_model (outline_request route_podcast 3) = ''gemini-3-pro-preview'' \<and>
   req_tools (outline_request route_podcast 3) = Some [GoogleSearch] \<and>
   req_model (segment_request route0 1 3 ''The wharf'' []) = ''gemini-3-flash-preview'' \<and>
   req_tools (segment_request route0 1 3 ''The wharf'' []) = None \<and>
   generateStoryOutline gen_podcast_only parse_outline route_podcast 3 =
     Inr [JNumber 7, PAD_OUTLINE, PAD_OUTLINE]"
proof -
  have a: "storyStyle route_podcast = ''HISTORY_PODCAST''"
    by (simp add: route_podcast_def)
  have b: "storyStyle route0 \<noteq> ''HISTORY_PODCAST''"
    by (simp add: route0_def)
  note t1 = model_and_search_by_style [where route = route_podcast and totalSegments = 3
      and gen = gen_podcast_only and parse = parse_outline]
  note t2 = model_and_search_by_style [where route = route0 and i = 1 and n = 3
        and ol = "''The wharf''" and ctx = "[]"]
  have t: "trimmed_text resp_outline = Some ''[7]''"
    by (simp add: trimmed_text_def resp_outline_def trim_def is_space_def)
  have h: "gen_podcast_only (outline_request route_podcast 3) = Inr resp_outline \<and>
      trimmed_text resp_outline = Some ''[7]'' \<and> ''[7]'' \<noteq> [] \<and>
      parse_outline ''[7]'' = Inr (JArray [JNumber 7]) \<and> [JNumber 7] \<noteq> []"
    by (simp add: gen_podcast_only_def t parse_outline_def)
  have p: "pad_outline [JNumber 7] 3 = Inr [JNumber 7, PAD_OUTLINE, PAD_OUTLINE]"
    by (simp add: pad_outline.simps MAX_ARRAY_LENGTH_def)
  from t1 h have "generateStoryOutline gen_podcast_only parse_outline route_podcast 3 =
        (case pad_outline [JNumber 7] 3 of
           Inl e \<Rightarrow> array_fill 3 FALLBACK_OUTLINE
         | Inr padded \<Rightarrow> Inr (slice0 padded 3))"
    by blast
  then have g: "generateStoryOutline gen_podcast_only parse_outline route_podcast 3 =
     Inr [JNumber 7, PAD_OUTLINE, PAD_OUTLINE]"
    by (simp add: p slice0_def to_integer_def)
  show ?thesis
    using t1 t2 a b g by blast
qed

section \<open>The sample rate of the audio container\<close>

lemma rate_at_None: "take 5 s \<noteq> ''rate='' \<Longrightarrow> rate_at s = None"
  by (simp add: rate_at_def)

lemma match_rate_None:
  "(\<forall>i. take 5 (drop i m) \<noteq> ''rate='') \<Longrightarrow> match_rate m = None"
proof (induction m)
  case Nil
  then show ?case by simp
next
  case (Cons c cs)
  from Cons.prems have "take 5 (drop 0 (c # cs)) \<noteq> ''rate=''" by blast
  then have h: "rate_at (c # cs) = None" by (simp add: rate_at_None)
  have "\<forall>i. take 5 (drop i cs) \<noteq> ''rate=''"
  proof
    fix i
    from Cons.prems have "take 5 (drop (Suc i) (c # cs)) \<noteq> ''rate=''" by blast
    then show "take 5 (drop i cs) \<noteq> ''rate=''" by simp
  qed
  then have "match_rate cs = None" by (rule Cons.IH)
  with h show ?case by simp
qed

lemma match_rate_skip:
  "(\<forall>i<length pre. take 5 (drop i (pre @ s)) \<noteq> ''rate='') \<Longrightarrow>
   match_rate (pre @ s) = match_rate s"
proof (induction pre)
  case Nil
  then show ?case by simp
next
  case (Cons c cs)
  from Cons.prems have "take 5 (drop 0 ((c # cs) @ s)) \<noteq> ''rate=''" by blast
  then have h: "rate_at (c # cs @ s) = None" by (simp add: rate_at_None)
  have "\<forall>i<length cs. take 5 (drop i (cs @ s)) \<noteq> ''rate=''"
  proof (intro allI impI)
    fix i assume "i < length cs"
    then have "Suc i < length (c # cs)" by simp
    with Cons.prems have "take 5 (drop (Suc i) ((c # cs) @ s)) \<noteq> ''rate=''" by blast
    then show "take 5 (drop i (cs @ s)) \<noteq> ''rate=''" by simp
  qed
  then have "match_rate (cs @ s) = match_rate s" by (rule Cons.IH)
  with h show ?case by simp
qed

lemma takeWhile_digits:
  assumes "\<forall>c\<in>set ds. is_digit c" and "rest = [] \<or> \<not> is_digit (hd rest)"
  shows "takeWhile is_digit (ds @ rest) = ds"
proof -
  have "takeWhile is_digit rest = []"
    using assms(2) by (cases rest) auto
  with assms(1) show ?thesis by (simp add: takeWhile_append2)
qed

lemma match_rate_here:
  assumes "ds \<noteq> []" and "\<forall>c\<in>set ds. is_digit c" and "rest = [] \<or> \<not> is_digit (hd rest)"
  shows "match_rate (''rate='' @ ds @ rest) = Some ds"
proof -
  have "rate_at (''rate='' @ ds @ rest) = Some ds"
    using assms(1) takeWhile_digits [OF assms(2,3)] by (simp add: rate_at_def)
  then show ?thesis by simp
qed

lemma mime_type_absent: "\<not> truthy (part_mimeType resp) \<Longrightarrow> mime_type resp = DEFAULT_MIME"
  by (simp add: mime_type_def)

lemma mime_type_present:
  "part_mimeType resp = Some m \<Longrightarrow> m \<noteq> [] \<Longrightarrow> mime_type resp = m"
  by (simp add: mime_type_def)

lemma parseInt10_snoc: "parseInt10 (ds @ [c]) = 10 * parseInt10 ds + digit_value c"
  by (simp add: parseInt10_def)

lemma sample_rate_default: "sample_rate DEFAULT_MIME = 24000"
  by (simp add: sample_rate_def DEFAULT_MIME_def rate_at_def is_digit_def parseInt10_def
      digit_value_def)

lemma sample_rate_no_rate:
  assumes "part_mimeType resp = Some m" and "\<forall>i. take 5 (drop i m) \<noteq> ''rate=''"
  shows "sample_rate (mime_type resp) = 24000"
proof (cases "m = []")
  case True
  with assms(1) have "mime_type resp = DEFAULT_MIME" by (simp add: mime_type_def)
  then show ?thesis by (simp add: sample_rate_default)
next
  case False
  with assms(1) have "mime_type resp = m" by (rule mime_type_present)
  then show ?thesis using match_rate_None [OF assms(2)] by (simp add: sample_rate_def)
qed

lemma sample_rate_parsed:
  assumes "part_mimeType resp = Some (pre @ ''rate='' @ ds @ rest)"
    and "ds \<noteq> []" and "\<forall>c\<in>set ds. is_digit c" and "rest = [] \<or> \<not> is_digit (hd rest)"
    and "\<forall>i<length pre. take 5 (drop i (pre @ ''rate='' @ ds @ rest)) \<noteq> ''rate=''"
  shows "sample_rate (mime_type resp) = parseInt10 ds"
proof -
  have "mime_type resp = pre @ ''rate='' @ ds @ rest"
    using assms(1) by (simp add: mime_type_def)
  moreover have "match_rate (pre @ ''rate='' @ ds @ rest) = Some ds"
    using match_rate_skip [OF assms(5)] match_rate_here [OF assms(2,3,4)] by simp
  ultimately show ?thesis by (simp add: sample_rate_def)
qed

lemma generateSegmentAudio_wav:
  assumes "gen (speech_request tx voice) = Inr resp" and "audio_data resp = Some d"
    and "d \<noteq> []" and "base64ToArrayBuffer d = Inr pcm"
  shows "generateSegmentAudio gen base64ToArrayBuffer pcmToWav decodeAudioData tx voice =
           decodeAudioData (pcmToWav pcm (sample_rate (mime_type resp)))"
  using assms by (simp add: generateSegmentAudio_def Let_def)

text \<open>
  Claim C8. When the model returns audio data that decodes from base64,
  \<^verbatim>\<open>generateSegmentAudio\<close> hands to \<^verbatim>\<open>decodeAudioData\<close> the payload wrapped by
  \<^verbatim>\<open>pcmToWav\<close> with the sample rate of the mime type. That rate is 24000 when the
  mime type is absent or empty, 24000 when the text \<^verbatim>\<open>rate=\<close> does not occur in it, and
  the decimal value of the digits that follow the first \<^verbatim>\<open>rate=\<close> otherwise.
\<close>
theorem generateSegmentAudio_sample_rate:
  assumes "gen (speech_request tx voice) = Inr resp" and "audio_data resp = Some d"
    and "d \<noteq> []" and "base64ToArrayBuffer d = Inr pcm"
  shows "generateSegmentAudio gen base64ToArrayBuffer pcmToWav decodeAudioData tx voice =
           decodeAudioData (pcmToWav pcm (sample_rate (mime_type resp))) \<and>
         (\<not> truthy (part_mimeType resp) \<longrightarrow> sample_rate (mime_type resp) = 24000) \<and>
         (\<forall>m. part_mimeType resp = Some m \<and> (\<forall>i. take 5 (drop i m) \<noteq> ''rate='') \<longrightarrow>
            sample_rate (mime_type resp) = 24000) \<and>
         (\<forall>pre ds rest.
            part_mimeType resp = Some (pre @ ''rate='' @ ds @ rest) \<and>
            ds \<noteq> [] \<and> (\<forall>c\<in>set ds. is_digit c) \<and> (rest = [] \<or> \<not> is_digit (hd rest)) \<and>
            (\<forall>i<length pre. take 5 (drop i (pre @ ''rate='' @ ds @ rest)) \<noteq> ''rate='') \<longrightarrow>
            sample_rate (mime_type resp) = parseInt10 ds)"
proof (intro conjI allI impI)
  show "generateSegmentAudio gen base64ToArrayBuffer pcmToWav decodeAudioData tx voice =
           decodeAudioData (pcmToWav pcm (sample_rate (mime_type resp)))"
    using assms by (rule generateSegmentAudio_wav)
next
  assume "\<not> truthy (part_mimeType resp)"
  then show "sample_rate (mime_type resp) = 24000"
    by (simp add: mime_type_absent sample_rate_default)
next
  fix m
  assume "part_mimeType resp = Some m \<and> (\<forall>i. take 5 (drop i m) \<noteq> ''rate='')"
  then show "sample_rate (mime_type resp) = 24000"
    using sample_rate_no_rate by blast
next
  fix pre ds rest
  assume h: "part_mimeType resp = Some (pre @ ''rate='' @ ds @ rest) \<and>
            ds \<noteq> [] \<and> (\<forall>c\<in>set ds. is_digit c) \<and> (rest = [] \<or> \<not> is_digit (hd rest)) \<and>
            (\<forall>i<length pre. take 5 (drop i (pre @ ''rate='' @ ds @ rest)) \<noteq> ''rate='')"
  show "sample_rate (mime_type resp) = parseInt10 ds"
    using h [THEN conjunct1] h [THEN conjunct2, THEN conjunct1]
      h [THEN conjunct2, THEN conjunct2, THEN conjunct1]
      h [THEN conjunct2, THEN conjunct2, THEN conjunct2, THEN conjunct1]
      h [THEN conjunct2, THEN conjunct2, THEN conjunct2, THEN conjunct2]
    by (rule sample_rate_parsed)
qed

text \<open>A payload tagged \<^verbatim>\<open>audio/L16;rate=16000\<close> is wrapped at 16000.\<close>
theorem generateSegmentAudio_sample_rate_witness:
  "generateSegmentAudio gen_audio b64_ok wav_tag decode_ok ''Fog rolled in.'' ''Kore'' =
     Inr \<lparr> ab_duration = 1, ab_samples = [16000, 0, 1, 2] \<rparr>"
proof -
  have a: "gen_audio (speech_request ''Fog rolled in.'' ''Kore'') = Inr resp_audio"
    by (simp add: gen_audio_def)
  have b: "audio_data resp_audio = Some ''AAEC''"
    by (simp add: audio_data_def first_inlineData_def resp_audio_def)
  have c: "''AAEC'' \<noteq> []" by simp
  have d: "b64_ok ''AAEC'' = Inr [0, 1, 2]" by (simp add: b64_ok_def)
  have m: "mime_type resp_audio = ''audio/L16;rate=16000''"
    by (simp add: mime_type_def part_mimeType_def first_inlineData_def resp_audio_def)
  have r: "sample_rate ''audio/L16;rate=16000'' = 16000"
    by (simp add: sample_rate_def rate_at_def is_digit_def parseInt10_def digit_value_def)
  show ?thesis
    using generateSegmentAudio_sample_rate [where pcmToWav = wav_tag
        and decodeAudioData = decode_ok and base64ToArrayBuffer = b64_ok and gen = gen_audio
        and tx = "''Fog rolled in.''" and voice = "''Kore''", OF a b c d]
    by (simp add: m r wav_tag_def decode_ok_def)
qed

section \<open>The single audio source\<close>

lemma list_all_upt: "list_all Q [0 ..< n] \<longleftrightarrow> (\<forall>a<n. Q a)"
  by (auto simp: list_all_iff)

lemma source_inv_iff:
  "source_inv s \<longleftrightarrow>
     (\<forall>a. sourceRef s = Some a \<longrightarrow> a < length (nodes s)) \<and>
     (\<forall>a<length (nodes s). node_playing (nodes s ! a) \<longrightarrow> sourceRef s = Some a)"
proof (cases "sourceRef s")
  case None
  then show ?thesis by (simp add: source_inv_def list_all_upt)
next
  case (Some b)
  then show ?thesis by (simp add: source_inv_def list_all_upt)
qed

lemma source_inv_update [simp]:
  "source_inv (s\<lparr> isPlaying := b \<rparr>) = source_inv s"
  "source_inv (s\<lparr> isBuffering := b \<rparr>) = source_inv s"
  "source_inv (s\<lparr> autoScroll := b \<rparr>) = source_inv s"
  "source_inv (s\<lparr> currentSegmentIndex := i \<rparr>) = source_inv s"
  "source_inv (s\<lparr> indexRef := i \<rparr>) = source_inv s"
  "source_inv (s\<lparr> audioContextRef := c \<rparr>) = source_inv s"
  "source_inv (s\<lparr> startTimeRef := t \<rparr>) = source_inv s"
  "source_inv (s\<lparr> segmentOffsetRef := t \<rparr>) = source_inv s"
  "source_inv (s\<lparr> awaiting := w \<rparr>) = source_inv s"
  "source_inv (s\<lparr> props := P \<rparr>) = source_inv s"
  by (simp_all add: source_inv_iff)

lemma stopAudio_sourceRef [simp]: "sourceRef (stopAudio s) = None"
  by (cases "sourceRef s") (simp_all add: stopAudio_def)

lemma stopAudio_length [simp]: "length (nodes (stopAudio s)) = length (nodes s)"
  by (simp add: stopAudio_def split: option.splits)

lemma stopAudio_silent:
  assumes "source_inv s" and "a < length (nodes s)"
  shows "\<not> node_playing (nodes (stopAudio s) ! a)"
proof (cases "sourceRef s")
  case None
  with assms show ?thesis by (auto simp: stopAudio_def source_inv_iff)
next
  case (Some b)
  show ?thesis
  proof (cases "a = b")
    case True
    with Some assms(2) show ?thesis by (simp add: stopAudio_def)
  next
    case False
    with assms Some have "\<not> node_playing (nodes s ! a)" by (auto simp: source_inv_iff)
    with False Some show ?thesis by (simp add: stopAudio_def)
  qed
qed

lemma stopAudio_inv: "source_inv s \<Longrightarrow> source_inv (stopAudio s)"
  using stopAudio_silent [of s] by (simp add: source_inv_iff [of "stopAudio s"])

lemma stopAudio_fields [simp]:
  "isPlaying (stopAudio s) = isPlaying s"
  "isBuffering (stopAudio s) = isBuffering s"
  "autoScroll (stopAudio s) = autoScroll s"
  "currentSegmentIndex (stopAudio s) = currentSegmentIndex s"
  "indexRef (stopAudio s) = indexRef s"
  "audioContextRef (stopAudio s) = audioContextRef s"
  "startTimeRef (stopAudio s) = startTimeRef s"
  "segmentOffsetRef (stopAudio s) = segmentOffsetRef s"
  "awaiting (stopAudio s) = awaiting s"
  "props (stopAudio s) = props s"
  "newContext (stopAudio s) = newContext s"
  by (simp_all add: stopAudio_def split: option.splits)

lemma playSegment_start_length:
  "length (nodes (playSegment_start P seg off s)) =
     (if audioContextRef s = None then length (nodes s) else Suc (length (nodes s)))"
  by (simp add: playSegment_start_def Let_def split: option.splits)

lemma playSegment_start_old:
  "a < length (nodes s) \<Longrightarrow>
   nodes (playSegment_start P seg off s) ! a = nodes (stopAudio s) ! a"
  by (simp add: playSegment_start_def Let_def nth_append split: option.splits)

lemma playSegment_start_silent:
  "source_inv s \<Longrightarrow> a < length (nodes s) \<Longrightarrow>
   \<not> node_playing (nodes (playSegment_start P seg off s) ! a)"
  by (simp add: playSegment_start_old stopAudio_silent)

lemma playSegment_start_inv:
  assumes "source_inv s"
  shows "source_inv (playSegment_start P seg off s)"
proof (cases "audioContextRef s")
  case None
  then have "playSegment_start P seg off s = stopAudio s"
    by (simp add: playSegment_start_def Let_def)
  with assms show ?thesis by (simp add: stopAudio_inv)
next
  case (Some c)
  let ?s' = "playSegment_start P seg off s"
  have r: "sourceRef ?s' = Some (length (nodes s))"
    using Some by (simp add: playSegment_start_def Let_def)
  have l: "length (nodes ?s') = Suc (length (nodes s))"
    using Some by (simp add: playSegment_start_length)
  have "\<forall>a<length (nodes ?s'). node_playing (nodes ?s' ! a) \<longrightarrow> sourceRef ?s' = Some a"
  proof (intro allI impI)
    fix a assume a: "a < length (nodes ?s')" and p: "node_playing (nodes ?s' ! a)"
    have "\<not> a < length (nodes s)"
      using playSegment_start_silent [OF assms, of a P seg off] p by blast
    with a l have "a = length (nodes s)" by simp
    with r show "sourceRef ?s' = Some a" by simp
  qed
  with r l show ?thesis by (simp add: source_inv_iff [of ?s'])
qed

lemma playSegment_inv:
  assumes "source_inv s"
  shows "source_inv (playSegment P seg off s)"
proof (cases "seg_audioBuffer seg")
  case None
  then have "playSegment P seg off s = s\<lparr> isBuffering := True \<rparr>"
    by (simp add: playSegment_def)
  with assms show ?thesis by simp
next
  case (Some b)
  define s1 where "s1 = s\<lparr> audioContextRef := Some (context_of s) \<rparr>"
  have i1: "source_inv s1"
    using assms by (simp add: s1_def)
  show ?thesis
  proof (cases "ctx_state (context_of s) = Suspended")
    case True
    then have "playSegment P seg off s = s1\<lparr> awaiting := awaiting s1 @ [(seg, off, P)] \<rparr>"
      using Some by (simp add: playSegment_def Let_def s1_def context_of_def)
    with i1 show ?thesis by simp
  next
    case False
    then have "playSegment P seg off s = playSegment_start P seg off s1"
      using Some by (simp add: playSegment_def Let_def s1_def context_of_def)
    with i1 show ?thesis by (simp add: playSegment_start_inv)
  qed
qed

lemma resumed_inv:
  assumes "source_inv s"
  shows "source_inv (resumed s)"
proof -
  define s1 where "s1 = s\<lparr> audioContextRef :=
      map_option (\<lambda>c. c\<lparr> ctx_state := Running \<rparr>) (audioContextRef s) \<rparr>"
  have i1: "source_inv s1"
    using assms by (simp add: s1_def)
  show ?thesis
  proof (cases "awaiting s")
    case Nil
    then have "resumed s = s1" by (simp add: resumed_def s1_def Let_def)
    with i1 show ?thesis by simp
  next
    case (Cons x rest)
    obtain seg off P where x: "x = (seg, off, P)" by (cases x) auto
    have "resumed s = playSegment_start P seg off (s1\<lparr> awaiting := rest \<rparr>)"
      using Cons x by (simp add: resumed_def s1_def Let_def)
    moreover have "source_inv (s1\<lparr> awaiting := rest \<rparr>)"
      using i1 by simp
    ultimately show ?thesis by (simp add: playSegment_start_inv)
  qed
qed

lemma handleSegmentEnd_inv:
  assumes "source_inv s"
  shows "source_inv (handleSegmentEnd P s)"
proof -
  define s1 where "s1 = s\<lparr> currentSegmentIndex := indexRef s + 1, segmentOffsetRef := 0 \<rparr>"
  have i1: "source_inv s1"
    using assms by (simp add: s1_def)
  show ?thesis
  proof (cases "ready (segment_at (segments (story P)) (indexRef s + 1))")
    case None
    then have "handleSegmentEnd P s = s1\<lparr> isPlaying := False \<rparr> \<or>
        handleSegmentEnd P s = s1\<lparr> isBuffering := True \<rparr>"
      by (simp add: handleSegmentEnd_def Let_def s1_def)
    with i1 show ?thesis by auto
  next
    case (Some seg)
    then have "handleSegmentEnd P s = playSegment P seg 0 s1"
      by (simp add: handleSegmentEnd_def Let_def s1_def)
    with i1 show ?thesis by (simp add: playSegment_inv)
  qed
qed

lemma onended_inv: "source_inv s \<Longrightarrow> source_inv (onended P seg s)"
  by (simp add: onended_def Let_def handleSegmentEnd_inv split: option.splits)

lemma togglePlayback_inv:
  assumes "source_inv s"
  shows "source_inv (togglePlayback P s)"
proof (cases "isPlaying s")
  case True
  define s1 where "s1 = (case audioContextRef s of
                     None \<Rightarrow> s
                   | Some ctx \<Rightarrow>
                       if \<not> isBuffering s
                       then s\<lparr> segmentOffsetRef := currentTime ctx - startTimeRef s \<rparr>
                       else s)"
  have "source_inv s1"
    using assms by (simp add: s1_def split: option.splits)
  then have "source_inv ((stopAudio s1)\<lparr> isPlaying := False, autoScroll := False \<rparr>)"
    by (simp add: stopAudio_inv)
  moreover have "togglePlayback P s = (stopAudio s1)\<lparr> isPlaying := False, autoScroll := False \<rparr>"
    using True by (simp add: togglePlayback_def s1_def Let_def)
  ultimately show ?thesis by simp
next
  case False
  show ?thesis
  proof (cases "ready (segment_at (segments (story P)) (currentSegmentIndex s))")
    case None
    with False have "togglePlayback P s = s\<lparr> isPlaying := True, isBuffering := True \<rparr>"
      by (simp add: togglePlayback_def Let_def)
    with assms show ?thesis by simp
  next
    case (Some seg)
    with False have "togglePlayback P s =
        (playSegment P seg (segmentOffsetRef s) (s\<lparr> isPlaying := True, isBuffering := False \<rparr>))
          \<lparr> autoScroll := True \<rparr>"
      by (simp add: togglePlayback_def Let_def)
    moreover have "source_inv (playSegment P seg (segmentOffsetRef s)
        (s\<lparr> isPlaying := True, isBuffering := False \<rparr>))"
      using assms by (simp add: playSegment_inv)
    ultimately show ?thesis by simp
  qed
qed

lemma bufferReadyEffect_inv:
  assumes "source_inv s"
  shows "source_inv (bufferReadyEffect P s)"
proof (cases "ready (segment_at (segments (story P)) (currentSegmentIndex s))")
  case None
  with assms show ?thesis by (simp add: bufferReadyEffect_def)
next
  case (Some seg)
  show ?thesis
  proof (cases "isBuffering s \<and> isPlaying s")
    case True
    with Some have "bufferReadyEffect P s = playSegment P seg 0 (s\<lparr> isBuffering := False \<rparr>)"
      by (simp add: bufferReadyEffect_def)
    with assms show ?thesis by (simp add: playSegment_inv)
  next
    case False
    with Some have "bufferReadyEffect P s = s" by (auto simp: bufferReadyEffect_def)
    with assms show ?thesis by simp
  qed
qed

lemma commit_inv: "source_inv s \<Longrightarrow> source_inv (commit s)"
  by (simp add: commit_def bufferReadyEffect_inv)

lemma ended_node_inv:
  assumes "source_inv s"
  shows "source_inv (s\<lparr> nodes := (nodes s)[a := (nodes s ! a)\<lparr> node_playing := False \<rparr>] \<rparr>)"
proof -
  define ns where "ns = (nodes s)[a := (nodes s ! a)\<lparr> node_playing := False \<rparr>]"
  have l: "length ns = length (nodes s)" by (simp add: ns_def)
  have p: "node_playing (ns ! b) \<Longrightarrow> b < length (nodes s) \<Longrightarrow> node_playing (nodes s ! b)" for b
    by (cases "b = a") (simp_all add: ns_def)
  have a1: "\<forall>b. sourceRef s = Some b \<longrightarrow> b < length (nodes s)"
    and a2: "\<forall>b<length (nodes s). node_playing (nodes s ! b) \<longrightarrow> sourceRef s = Some b"
    using assms unfolding source_inv_iff by blast+
  let ?s' = "s\<lparr> nodes := ns \<rparr>"
  have b1: "\<forall>b. sourceRef ?s' = Some b \<longrightarrow> b < length (nodes ?s')"
    using a1 l by simp
  have b2: "\<forall>b<length (nodes ?s'). node_playing (nodes ?s' ! b) \<longrightarrow> sourceRef ?s' = Some b"
  proof (intro allI impI)
    fix b assume "b < length (nodes ?s')" and "node_playing (nodes ?s' ! b)"
    then have bl: "b < length (nodes s)" and pb: "node_playing (ns ! b)"
      by (simp_all add: l)
    from p [OF pb bl] a2 bl have "sourceRef s = Some b" by blast
    then show "sourceRef ?s' = Some b" by simp
  qed
  have "source_inv ?s'"
    using b1 b2 by (rule source_inv_iff [THEN iffD2, OF conjI])
  then show ?thesis by (simp only: ns_def)
qed

lemma sourceEnded_inv:
  assumes "source_inv s"
  shows "source_inv (sourceEnded a s)"
proof (cases "a < length (nodes s) \<and> node_playing (nodes s ! a)")
  case False
  then have "sourceEnded a s = s" by (auto simp: sourceEnded_def)
  with assms show ?thesis by simp
next
  case True
  let ?s1 = "s\<lparr> nodes := (nodes s)[a := (nodes s ! a)\<lparr> node_playing := False \<rparr>] \<rparr>"
  have i1: "source_inv ?s1" using assms by (rule ended_node_inv)
  show ?thesis
  proof (cases "node_onended (nodes s ! a)")
    case None
    with True have "sourceEnded a s = ?s1" by (simp add: sourceEnded_def Let_def)
    with i1 show ?thesis by simp
  next
    case (Some h)
    obtain seg P where h: "h = (seg, P)" by (cases h) auto
    with True Some have "sourceEnded a s = onended P seg ?s1"
      by (simp add: sourceEnded_def Let_def)
    with i1 show ?thesis by (simp add: onended_inv)
  qed
qed

lemma tick_inv: "source_inv s \<Longrightarrow> source_inv (tick d s)"
  by (simp add: tick_def)

lemma step_inv: "source_inv s \<Longrightarrow> source_inv (step e s)"
  by (cases e)
    (simp_all add: commit_inv togglePlayback_inv sourceEnded_inv resumed_inv tick_inv)

lemma init_inv: "source_inv (init P c)"
  by (simp add: source_inv_def init_def)

lemma foldl_step_inv: "source_inv s \<Longrightarrow> source_inv (foldl (\<lambda>s e. step e s) s es)"
  by (induction es arbitrary: s) (simp_all add: step_inv)

lemma run_inv: "source_inv (run P c es)"
  by (simp add: run_def foldl_step_inv init_inv)

lemma at_most_one_playing:
  assumes "source_inv s"
  shows "length (playing_nodes s) \<le> 1"
proof (cases "sourceRef s")
  case None
  with assms have "\<forall>a<length (nodes s). \<not> node_playing (nodes s ! a)"
    by (simp add: source_inv_iff)
  then have "playing_nodes s = []"
    by (simp add: playing_nodes_def filter_empty_conv)
  then show ?thesis by simp
next
  case (Some b)
  with assms have "\<forall>a<length (nodes s). node_playing (nodes s ! a) \<longrightarrow> a = b"
    by (simp add: source_inv_iff)
  then have "set (playing_nodes s) \<subseteq> {b}"
    by (auto simp: playing_nodes_def)
  moreover have "distinct (playing_nodes s)"
    by (simp add: playing_nodes_def)
  ultimately have "card (set (playing_nodes s)) \<le> card {b}"
    by (intro card_mono) simp_all
  with \<open>distinct (playing_nodes s)\<close> show ?thesis
    by (simp add: distinct_card)
qed

text \<open>
  Claim C6. At most one source node plays at any time. In every state the player reaches
  from its initial state, a node that plays is the one \<open>sourceRef\<close> holds, so at most
  one does. After \<^verbatim>\<open>stopAudio\<close>, and after the part of \<^verbatim>\<open>playSegment\<close> that starts a
  new source, no node that existed before plays; and every operation of the player keeps
  the invariant.
\<close>
theorem single_audio_source:
  "source_inv (run P c es) \<and>
   length (playing_nodes (run P c es)) \<le> 1 \<and>
   (source_inv s \<longrightarrow>
      (\<forall>a<length (nodes s). \<not> node_playing (nodes (stopAudio s) ! a)) \<and>
      (\<forall>a<length (nodes s). \<not> node_playing (nodes (playSegment_start Q seg off s) ! a)) \<and>
      source_inv (stopAudio s) \<and>
      source_inv (playSegment Q seg off s) \<and>
      source_inv (resumed s) \<and>
      source_inv (handleSegmentEnd Q s) \<and>
      source_inv (togglePlayback Q s) \<and>
      source_inv (bufferReadyEffect Q s) \<and>
      source_inv (step e s) \<and>
      length (playing_nodes (step e s)) \<le> 1)"
proof (intro conjI impI allI)
  show "source_inv (run P c es)" by (rule run_inv)
  show "length (playing_nodes (run P c es)) \<le> 1" by (rule at_most_one_playing) (rule run_inv)
next
  fix a assume "source_inv s" and "a < length (nodes s)"
  then show "\<not> node_playing (nodes (stopAudio s) ! a)" by (rule stopAudio_silent)
next
  fix a assume "source_inv s" and "a < length (nodes s)"
  then show "\<not> node_playing (nodes (playSegment_start Q seg off s) ! a)"
    by (rule playSegment_start_silent)
next
  assume i: "source_inv s"
  show "source_inv (stopAudio s)" using i by (rule stopAudio_inv)
  show "source_inv (playSegment Q seg off s)" using i by (rule playSegment_inv)
  show "source_inv (resumed s)" using i by (rule resumed_inv)
  show "source_inv (handleSegmentEnd Q s)" using i by (rule handleSegmentEnd_inv)
  show "source_inv (togglePlayback Q s)" using i by (rule togglePlayback_inv)
  show "source_inv (bufferReadyEffect Q s)" using i by (rule bufferReadyEffect_inv)
  show "source_inv (step e s)" using i by (rule step_inv)
  show "length (playing_nodes (step e s)) \<le> 1"
    using i by (intro at_most_one_playing step_inv)
qed

subsection \<open>Runs on concrete inputs\<close>

lemmas player_eval = run_def init_def commit_def bufferReadyEffect_def togglePlayback_def
  playSegment_def playSegment_start_def stopAudio_def tick_def sourceEnded_def onended_def
  handleSegmentEnd_def segment_at_def props_ready_def props_pending_def seg_one_def
  seg_two_def seg_pending_def buf10_def ctx_running_def Let_def

lemma second_playing:
  "playing_nodes (run props_ready ctx_running [Toggle, Tick 10, Ended 0]) = [1]"
  by (simp add: player_eval playing_nodes_def)

text \<open>
  The first segment plays to its end and the second starts: the only node playing is the
  second one.
\<close>
theorem single_audio_source_witness:
  "source_inv (run props_ready ctx_running [Toggle, Tick 10, Ended 0]) \<and>
   playing_nodes (run props_ready ctx_running [Toggle, Tick 10, Ended 0]) = [1] \<and>
   length (playing_nodes (run props_ready ctx_running [Toggle, Tick 10, Ended 0])) \<le> 1"
  using single_audio_source [of props_ready ctx_running "[Toggle, Tick 10, Ended 0]"]
    second_playing
  by blast

section \<open>Starting a segment\<close>

lemma playSegment_start_fields [simp]:
  "isPlaying (playSegment_start P seg off s) = isPlaying s"
  "isBuffering (playSegment_start P seg off s) = isBuffering s"
  "currentSegmentIndex (playSegment_start P seg off s) = currentSegmentIndex s"
  "indexRef (playSegment_start P seg off s) = indexRef s"
  "audioContextRef (playSegment_start P seg off s) = audioContextRef s"
  "awaiting (playSegment_start P seg off s) = awaiting s"
  by (simp_all add: playSegment_start_def Let_def split: option.splits)

lemma playSegment_start_started:
  assumes "audioContextRef s = Some c" and "0 \<le> off"
  shows "started (playSegment_start P seg off s) seg off P"
proof -
  have "playSegment_start P seg off s =
      (stopAudio s)\<lparr> nodes := nodes (stopAudio s) @
                 [\<lparr> node_buffer = seg_audioBuffer seg, node_onended = Some (seg, P),
                    node_playing = True, node_offset = off \<rparr>],
              sourceRef := Some (length (nodes (stopAudio s))),
              startTimeRef := currentTime c - off \<rparr>"
    using assms by (simp add: playSegment_start_def Let_def)
  then show ?thesis by (simp add: started_def nth_append)
qed

lemma playSegment_no_buffer:
  "seg_audioBuffer seg = None \<Longrightarrow> playSegment P seg off s = s\<lparr> isBuffering := True \<rparr>"
  by (simp add: playSegment_def)

lemma playSegment_running:
  assumes "seg_audioBuffer seg = Some b" and "ctx_state (context_of s) \<noteq> Suspended"
  shows "playSegment P seg off s =
           playSegment_start P seg off (s\<lparr> audioContextRef := Some (context_of s) \<rparr>)"
  using assms by (simp add: playSegment_def Let_def context_of_def)

lemma playSegment_suspended:
  assumes "seg_audioBuffer seg = Some b" and "ctx_state (context_of s) = Suspended"
  shows "playSegment P seg off s =
           s\<lparr> audioContextRef := Some (context_of s), awaiting := awaiting s @ [(seg, off, P)] \<rparr>"
  using assms by (simp add: playSegment_def Let_def context_of_def)

lemma playSegment_fields [simp]:
  "isPlaying (playSegment P seg off s) = isPlaying s"
  "currentSegmentIndex (playSegment P seg off s) = currentSegmentIndex s"
  "indexRef (playSegment P seg off s) = indexRef s"
  by (simp_all add: playSegment_def Let_def split: option.splits)

lemma playSegment_isBuffering:
  "seg_audioBuffer seg = Some b \<Longrightarrow> isBuffering (playSegment P seg off s) = isBuffering s"
  by (simp add: playSegment_def Let_def)

lemma resumed_Cons:
  "awaiting s = (seg, off, P) # rest \<Longrightarrow>
   resumed s = playSegment_start P seg off
     (s\<lparr> audioContextRef := map_option (\<lambda>c. c\<lparr> ctx_state := Running \<rparr>) (audioContextRef s),
        awaiting := rest \<rparr>)"
  by (simp add: resumed_def Let_def)

lemma resumed_queue:
  assumes "audioContextRef s = Some c" and "awaiting s = pre @ [(seg, off, P)]" and "0 \<le> off"
  shows "started ((resumed ^^ Suc (length pre)) s) seg off P"
  using assms
proof (induction pre arbitrary: s c)
  case Nil
  then have "resumed s = playSegment_start P seg off
     (s\<lparr> audioContextRef := Some (c\<lparr> ctx_state := Running \<rparr>), awaiting := [] \<rparr>)"
    by (simp add: resumed_Cons)
  moreover have "started (playSegment_start P seg off
     (s\<lparr> audioContextRef := Some (c\<lparr> ctx_state := Running \<rparr>), awaiting := [] \<rparr>)) seg off P"
    using Nil.prems(3) by (intro playSegment_start_started) simp_all
  ultimately show ?case by simp
next
  case (Cons x pre)
  obtain seg' off' P' where x: "x = (seg', off', P')" by (cases x) auto
  define s' where "s' = resumed s"
  have r: "s' = playSegment_start P' seg' off'
     (s\<lparr> audioContextRef := Some (c\<lparr> ctx_state := Running \<rparr>),
        awaiting := pre @ [(seg, off, P)] \<rparr>)"
    using Cons.prems x by (simp add: s'_def resumed_Cons)
  have a: "audioContextRef s' = Some (c\<lparr> ctx_state := Running \<rparr>)" by (simp add: r)
  have w: "awaiting s' = pre @ [(seg, off, P)]" by (simp add: r)
  have "started ((resumed ^^ Suc (length pre)) s') seg off P"
    using a w Cons.prems(3) by (rule Cons.IH)
  moreover have "(resumed ^^ Suc (length (x # pre))) s = (resumed ^^ Suc (length pre)) s'"
    by (simp add: s'_def funpow_swap1)
  ultimately show ?case by simp
qed

lemma playSegment_plays:
  assumes "seg_audioBuffer seg = Some b" and "0 \<le> off"
  shows "(ctx_state (context_of s) \<noteq> Suspended \<longrightarrow> started (playSegment P seg off s) seg off P) \<and>
         (ctx_state (context_of s) = Suspended \<longrightarrow>
            awaiting (playSegment P seg off s) = awaiting s @ [(seg, off, P)] \<and>
            nodes (playSegment P seg off s) = nodes s \<and>
            started ((resumed ^^ Suc (length (awaiting s))) (playSegment P seg off s)) seg off P)"
proof (intro conjI impI)
  assume r: "ctx_state (context_of s) \<noteq> Suspended"
  show "started (playSegment P seg off s) seg off P"
    unfolding playSegment_running [OF assms(1) r]
    using assms(2) by (intro playSegment_start_started) simp_all
next
  assume u: "ctx_state (context_of s) = Suspended"
  note e = playSegment_suspended [OF assms(1) u, of P off]
  show "awaiting (playSegment P seg off s) = awaiting s @ [(seg, off, P)]"
    by (simp add: e)
  show "nodes (playSegment P seg off s) = nodes s"
    by (simp add: e)
  have "started ((resumed ^^ Suc (length (awaiting s)))
      (s\<lparr> audioContextRef := Some (context_of s), awaiting := awaiting s @ [(seg, off, P)] \<rparr>))
      seg off P"
    using assms(2) by (intro resumed_queue) simp_all
  then show "started ((resumed ^^ Suc (length (awaiting s))) (playSegment P seg off s)) seg off P"
    by (simp only: e)
qed

lemma bufferReadyEffect_fires:
  assumes "isBuffering s" and "isPlaying s"
    and "segment_at (segments (story P)) (currentSegmentIndex s) = Some seg"
    and "seg_audioBuffer seg = Some b"
  shows "bufferReadyEffect P s = playSegment P seg 0 (s\<lparr> isBuffering := False \<rparr>)"
  using assms by (simp add: bufferReadyEffect_def)

lemma context_of_update [simp]:
  "context_of (s\<lparr> isBuffering := x \<rparr>) = context_of s"
  "context_of (s\<lparr> isPlaying := x \<rparr>) = context_of s"
  "context_of (s\<lparr> currentSegmentIndex := i \<rparr>) = context_of s"
  "context_of (s\<lparr> segmentOffsetRef := t \<rparr>) = context_of s"
  by (simp_all add: context_of_def split: option.splits)

text \<open>
  Claim C3. A segment returned by \<^verbatim>\<open>generateSegment\<close> has no audio buffer. In the
  player, when \<open>isBuffering\<close> and \<open>isPlaying\<close> hold and the current segment has an audio
  buffer, the effect clears \<open>isBuffering\<close> and starts the segment from offset 0: at once
  when the audio context is not suspended, and once \<^verbatim>\<open>resume()\<close> has fulfilled for the
  calls waiting before it and for this one when it is. New props reach the effect through
  \<open>step (NewProps P)\<close>.
\<close>
theorem segment_audio_lifecycle:
  "(generateSegment gen route i n ol ctx = Inr fresh \<longrightarrow> seg_audioBuffer fresh = None) \<and>
   (isBuffering s \<and> isPlaying s \<and>
    segment_at (segments (story P)) (currentSegmentIndex s) = Some seg \<and>
    seg_audioBuffer seg = Some b \<longrightarrow>
      \<not> isBuffering (bufferReadyEffect P s) \<and>
      isPlaying (bufferReadyEffect P s) \<and>
      (ctx_state (context_of s) \<noteq> Suspended \<longrightarrow> started (bufferReadyEffect P s) seg 0 P) \<and>
      (ctx_state (context_of s) = Suspended \<longrightarrow>
         awaiting (bufferReadyEffect P s) = awaiting s @ [(seg, 0, P)] \<and>
         started ((resumed ^^ Suc (length (awaiting s))) (bufferReadyEffect P s)) seg 0 P)) \<and>
   step (NewProps P) s =
     bufferReadyEffect P (s\<lparr> props := P, indexRef := currentSegmentIndex s \<rparr>)"
proof (intro conjI impI)
  assume "generateSegment gen route i n ol ctx = Inr fresh"
  from generateSegment_Inr [OF this] obtain resp t where
    "fresh = \<lparr> seg_index = i, seg_text = t, seg_audioBuffer = None,
             seg_sources = (if extract_sources resp \<noteq> [] then Some (extract_sources resp)
                            else None) \<rparr>"
    by blast
  then show "seg_audioBuffer fresh = None"
    by (elim ssubst) (rule StorySegment.select_convs)
next
  assume h: "isBuffering s \<and> isPlaying s \<and>
    segment_at (segments (story P)) (currentSegmentIndex s) = Some seg \<and>
    seg_audioBuffer seg = Some b"
  then have sb: "seg_audioBuffer seg = Some b" by simp
  define s0 where "s0 = s\<lparr> isBuffering := False \<rparr>"
  have e: "bufferReadyEffect P s = playSegment P seg 0 s0"
    unfolding s0_def using h by (intro bufferReadyEffect_fires) simp_all
  have c: "context_of s0 = context_of s" and w: "awaiting s0 = awaiting s"
    by (simp_all add: s0_def)
  note p = playSegment_plays [OF sb order_refl, of s0 P]
  show "\<not> isBuffering (bufferReadyEffect P s)"
    by (simp add: e playSegment_isBuffering [OF sb] s0_def)
  show "isPlaying (bufferReadyEffect P s)"
    using h by (simp add: e s0_def)
  {
    assume "ctx_state (context_of s) \<noteq> Suspended"
    then show "started (bufferReadyEffect P s) seg 0 P"
      using p by (simp add: e c)
  }
  {
    assume u: "ctx_state (context_of s) = Suspended"
    show "awaiting (bufferReadyEffect P s) = awaiting s @ [(seg, 0, P)]"
      using p u by (simp add: e c w)
    show "started ((resumed ^^ Suc (length (awaiting s))) (bufferReadyEffect P s)) seg 0 P"
      using p u by (simp add: e c w)
  }
next
  show "step (NewProps P) s =
     bufferReadyEffect P (s\<lparr> props := P, indexRef := currentSegmentIndex s \<rparr>)"
    by (simp add: commit_def)
qed

text \<open>The player waits for the first segment; its audio arrives and it plays.\<close>
theorem segment_audio_lifecycle_witness:
  "seg_audioBuffer seg_fog = None \<and>
   \<not> isBuffering (bufferReadyEffect props_ready s_waiting) \<and>
   started (bufferReadyEffect props_ready s_waiting) seg_one 0 props_ready"
proof -
  have e: "extract_sources resp_segment =
      [\<lparr> src_title = ''A'', src_uri = ''https://a.example'' \<rparr>,
       \<lparr> src_title = ''B'', src_uri = ''https://b.example'' \<rparr>]"
    by (simp add: extract_sources_def grounding_chunks_def resp_segment_def add_source_def
        chunk_a_def chunk_a2_def chunk_b_def chunk_untitled_def)
  have t: "trimmed_text resp_segment = Some ''Fog rolled in.''"
    by (simp add: trimmed_text_def resp_segment_def trim_def is_space_def)
  have g: "generateSegment gen_segment route_podcast 2 5 ''The wharf'' ''Earlier'' = Inr seg_fog"
    by (simp add: generateSegment_def gen_segment_def t e seg_fog_def)
  have h: "isBuffering s_waiting \<and> isPlaying s_waiting \<and>
    segment_at (segments (story props_ready)) (currentSegmentIndex s_waiting) = Some seg_one \<and>
    seg_audioBuffer seg_one = Some buf10"
    by (simp add: s_waiting_def init_def props_ready_def segment_at_def seg_one_def)
  have r: "ctx_state (context_of s_waiting) \<noteq> Suspended"
    by (simp add: s_waiting_def init_def context_of_def ctx_running_def)
  note l = segment_audio_lifecycle [where gen = gen_segment and route = route_podcast
      and i = 2 and n = 5 and ol = "''The wharf''" and ctx = "''Earlier''" and fresh = seg_fog
      and s = s_waiting and P = props_ready and seg = seg_one and b = buf10]
  from l g h r show ?thesis by blast
qed

section \<open>The end of a segment\<close>

lemma handleSegmentEnd_ready:
  assumes "ready (segment_at (segments (story P)) (indexRef s + 1)) = Some seg"
  shows "handleSegmentEnd P s =
           playSegment P seg 0 (s\<lparr> currentSegmentIndex := indexRef s + 1, segmentOffsetRef := 0 \<rparr>)"
  using assms by (simp add: handleSegmentEnd_def Let_def)

lemma handleSegmentEnd_finished:
  assumes "ready (segment_at (segments (story P)) (indexRef s + 1)) = None"
    and "indexRef s + 1 \<ge> totalSegmentsEstimate (story P) \<and> \<not> isBackgroundGenerating P"
  shows "handleSegmentEnd P s =
           s\<lparr> currentSegmentIndex := indexRef s + 1, segmentOffsetRef := 0, isPlaying := False \<rparr>"
  using assms by (simp add: handleSegmentEnd_def Let_def)

lemma handleSegmentEnd_buffering:
  assumes "ready (segment_at (segments (story P)) (indexRef s + 1)) = None"
    and "\<not> (indexRef s + 1 \<ge> totalSegmentsEstimate (story P) \<and> \<not> isBackgroundGenerating P)"
  shows "handleSegmentEnd P s =
           s\<lparr> currentSegmentIndex := indexRef s + 1, segmentOffsetRef := 0, isBuffering := True \<rparr>"
proof -
  have "\<not> (indexRef s + 1 \<ge> totalSegmentsEstimate (story P) \<and> \<not> isBackgroundGenerating P)"
    by (rule assms(2))
  then show ?thesis
    unfolding handleSegmentEnd_def Let_def assms(1) by (simp only: option.case if_False)
qed

lemma handleSegmentEnd_index: "currentSegmentIndex (handleSegmentEnd P s) = indexRef s + 1"
  by (simp add: handleSegmentEnd_def Let_def split: option.splits)

lemma ready_Some: "ready x = Some seg \<Longrightarrow> x = Some seg \<and> (\<exists>b. seg_audioBuffer seg = Some b)"
  by (cases x) (auto split: if_splits)

lemma sourceEnded_handler:
  assumes "a < length (nodes s)" and "node_playing (nodes s ! a)"
    and "node_onended (nodes s ! a) = Some (seg, P)" and "seg_audioBuffer seg = Some b"
    and "audioContextRef s = Some c" and "currentTime c - startTimeRef s \<ge> ab_duration b - 1 / 2"
  shows "sourceEnded a s =
           handleSegmentEnd P (s\<lparr> nodes := (nodes s)[a := (nodes s ! a)\<lparr> node_playing := False \<rparr>] \<rparr>)"
  using assms by (simp add: sourceEnded_def onended_def Let_def)

lemma commit_sync: "indexRef (commit s) = currentSegmentIndex (commit s)"
proof -
  have "indexRef (bufferReadyEffect P s') = indexRef s' \<and>
      currentSegmentIndex (bufferReadyEffect P s') = currentSegmentIndex s'" for P s'
    by (simp add: bufferReadyEffect_def split: option.splits)
  then show ?thesis by (simp add: commit_def)
qed

lemma step_sync:
  "indexRef s = currentSegmentIndex s \<Longrightarrow> indexRef (step e s) = currentSegmentIndex (step e s)"
  by (cases e) (simp_all add: commit_sync tick_def)

lemma foldl_step_sync:
  "indexRef s = currentSegmentIndex s \<Longrightarrow>
   indexRef (foldl (\<lambda>s e. step e s) s es) = currentSegmentIndex (foldl (\<lambda>s e. step e s) s es)"
  by (induction es arbitrary: s) (simp_all add: step_sync)

lemma run_sync: "indexRef (run P c es) = currentSegmentIndex (run P c es)"
  by (simp add: run_def foldl_step_sync init_def)

text \<open>
  What \<^verbatim>\<open>handleSegmentEnd\<close> does with the props \<open>P\<close> it reads, those of the render
  that created the handler: it moves the current index up by one; it plays the next
  segment from offset 0 when \<open>P\<close> holds a buffer for it; otherwise it sets \<open>isPlaying\<close>
  to false when the next index is at or past the estimate of \<open>P\<close> and \<open>P\<close> reports no
  background generation, and sets \<open>isBuffering\<close> in every other case. The handler of
  \<^verbatim>\<open>onended\<close> runs it when the segment has played to within half a second of its end,
  and \<open>indexRef\<close> equals the current index in every state the player reaches.
\<close>

lemma handleSegmentEnd_advances:
  assumes "indexRef s = currentSegmentIndex s"
  shows "currentSegmentIndex (handleSegmentEnd P s) = currentSegmentIndex s + 1 \<and>
    (\<forall>seg. ready (segment_at (segments (story P)) (currentSegmentIndex s + 1)) = Some seg \<longrightarrow>
       isPlaying (handleSegmentEnd P s) = isPlaying s \<and>
       isBuffering (handleSegmentEnd P s) = isBuffering s \<and>
       (ctx_state (context_of s) \<noteq> Suspended \<longrightarrow> started (handleSegmentEnd P s) seg 0 P) \<and>
       (ctx_state (context_of s) = Suspended \<longrightarrow>
          awaiting (handleSegmentEnd P s) = awaiting s @ [(seg, 0, P)] \<and>
          started ((resumed ^^ Suc (length (awaiting s))) (handleSegmentEnd P s)) seg 0 P)) \<and>
    (ready (segment_at (segments (story P)) (currentSegmentIndex s + 1)) = None \<and>
     currentSegmentIndex s + 1 \<ge> totalSegmentsEstimate (story P) \<and> \<not> isBackgroundGenerating P \<longrightarrow>
       handleSegmentEnd P s =
         s\<lparr> currentSegmentIndex := currentSegmentIndex s + 1, segmentOffsetRef := 0,
            isPlaying := False \<rparr>) \<and>
    (ready (segment_at (segments (story P)) (currentSegmentIndex s + 1)) = None \<and>
     \<not> (currentSegmentIndex s + 1 \<ge> totalSegmentsEstimate (story P) \<and> \<not> isBackgroundGenerating P) \<longrightarrow>
       handleSegmentEnd P s =
         s\<lparr> currentSegmentIndex := currentSegmentIndex s + 1, segmentOffsetRef := 0,
            isBuffering := True \<rparr>) \<and>
    (\<forall>a seg b c.
       a < length (nodes s) \<and> node_playing (nodes s ! a) \<and>
       node_onended (nodes s ! a) = Some (seg, P) \<and> seg_audioBuffer seg = Some b \<and>
       audioContextRef s = Some c \<and> currentTime c - startTimeRef s \<ge> ab_duration b - 1 / 2 \<longrightarrow>
       sourceEnded a s =
         handleSegmentEnd P
           (s\<lparr> nodes := (nodes s)[a := (nodes s ! a)\<lparr> node_playing := False \<rparr>] \<rparr>)) \<and>
    indexRef (run Q k es) = currentSegmentIndex (run Q k es)"
proof (intro conjI allI impI)
  show "currentSegmentIndex (handleSegmentEnd P s) = currentSegmentIndex s + 1"
    by (simp add: handleSegmentEnd_index assms)
next
  fix seg
  assume r: "ready (segment_at (segments (story P)) (currentSegmentIndex s + 1)) = Some seg"
  from ready_Some [OF r] obtain b where sb: "seg_audioBuffer seg = Some b" by blast
  define s1 where "s1 = s\<lparr> currentSegmentIndex := indexRef s + 1, segmentOffsetRef := 0 \<rparr>"
  have e: "handleSegmentEnd P s = playSegment P seg 0 s1"
    unfolding s1_def using r by (intro handleSegmentEnd_ready) (simp add: assms)
  have c: "context_of s1 = context_of s" and w: "awaiting s1 = awaiting s"
    by (simp_all add: s1_def)
  note p = playSegment_plays [OF sb order_refl, of s1 P]
  show "isPlaying (handleSegmentEnd P s) = isPlaying s"
    by (simp add: e s1_def)
  show "isBuffering (handleSegmentEnd P s) = isBuffering s"
    by (simp add: e playSegment_isBuffering [OF sb] s1_def)
  {
    assume "ctx_state (context_of s) \<noteq> Suspended"
    then show "started (handleSegmentEnd P s) seg 0 P"
      using p by (simp add: e c)
  }
  {
    assume u: "ctx_state (context_of s) = Suspended"
    show "awaiting (handleSegmentEnd P s) = awaiting s @ [(seg, 0, P)]"
      using p u by (simp add: e c w)
    show "started ((resumed ^^ Suc (length (awaiting s))) (handleSegmentEnd P s)) seg 0 P"
      using p u by (simp add: e c w)
  }
next
  assume "ready (segment_at (segments (story P)) (currentSegmentIndex s + 1)) = None \<and>
     currentSegmentIndex s + 1 \<ge> totalSegmentsEstimate (story P) \<and> \<not> isBackgroundGenerating P"
  then show "handleSegmentEnd P s =
         s\<lparr> currentSegmentIndex := currentSegmentIndex s + 1, segmentOffsetRef := 0,
            isPlaying := False \<rparr>"
    using handleSegmentEnd_finished [of P s] by (simp add: assms)
next
  assume "ready (segment_at (segments (story P)) (currentSegmentIndex s + 1)) = None \<and>
     \<not> (currentSegmentIndex s + 1 \<ge> totalSegmentsEstimate (story P) \<and> \<not> isBackgroundGenerating P)"
  then show "handleSegmentEnd P s =
         s\<lparr> currentSegmentIndex := currentSegmentIndex s + 1, segmentOffsetRef := 0,
            isBuffering := True \<rparr>"
    using handleSegmentEnd_buffering [of P s] by (simp add: assms)
next
  fix a seg b c
  assume h: "a < length (nodes s) \<and> node_playing (nodes s ! a) \<and>
       node_onended (nodes s ! a) = Some (seg, P) \<and> seg_audioBuffer seg = Some b \<and>
       audioContextRef s = Some c \<and> currentTime c - startTimeRef s \<ge> ab_duration b - 1 / 2"
  show "sourceEnded a s =
         handleSegmentEnd P
           (s\<lparr> nodes := (nodes s)[a := (nodes s ! a)\<lparr> node_playing := False \<rparr>] \<rparr>)"
    using h [THEN conjunct1] h [THEN conjunct2, THEN conjunct1]
      h [THEN conjunct2, THEN conjunct2, THEN conjunct1]
      h [THEN conjunct2, THEN conjunct2, THEN conjunct2, THEN conjunct1]
      h [THEN conjunct2, THEN conjunct2, THEN conjunct2, THEN conjunct2, THEN conjunct1]
      h [THEN conjunct2, THEN conjunct2, THEN conjunct2, THEN conjunct2, THEN conjunct2]
    by (rule sourceEnded_handler)
next
  show "indexRef (run Q k es) = currentSegmentIndex (run Q k es)" by (rule run_sync)
qed

text \<open>
  Claim C4 says that, when the audio of a segment finishes and the next segment has no
  buffer, playback stops if the next index is at or past \<open>totalSegmentsEstimate\<close> and
  background generation is finished. The code decides this on the props its
  \<^verbatim>\<open>onended\<close> closure captured when the segment started, not on the current ones (only
  the index is read through a ref). Here play is pressed on the last segment while the
  parent still reports generation, the parent then reports that generation has finished,
  and the segment plays to its end: the current props have no next segment, the next index
  1 is at the estimate and generation is finished, yet the player keeps \<open>isPlaying\<close>, sets
  \<open>isBuffering\<close> and plays nothing. With the same props from the start, it stops.
\<close>

theorem stale_handler_keeps_buffering:
  "node_playing (nodes (run props_generating ctx_running
      [Toggle, NewProps props_finished, Tick 10]) ! 0) \<and>
   props (run props_generating ctx_running [Toggle, NewProps props_finished, Tick 10]) =
     props_finished \<and>
   currentSegmentIndex (run props_generating ctx_running
      [Toggle, NewProps props_finished, Tick 10]) = 0 \<and>
   ready (segment_at (segments (story props_finished)) 1) = None \<and>
   totalSegmentsEstimate (story props_finished) \<le> 1 \<and>
   \<not> isBackgroundGenerating props_finished \<and>
   currentSegmentIndex (run props_generating ctx_running
      [Toggle, NewProps props_finished, Tick 10, Ended 0]) = 1 \<and>
   isPlaying (run props_generating ctx_running
      [Toggle, NewProps props_finished, Tick 10, Ended 0]) \<and>
   isBuffering (run props_generating ctx_running
      [Toggle, NewProps props_finished, Tick 10, Ended 0]) \<and>
   playing_nodes (run props_generating ctx_running
      [Toggle, NewProps props_finished, Tick 10, Ended 0]) = [] \<and>
   \<not> isPlaying (run props_finished ctx_running [Toggle, Tick 10, Ended 0]) \<and>
   \<not> isBuffering (run props_finished ctx_running [Toggle, Tick 10, Ended 0])"
  by (simp add: player_eval props_generating_def props_finished_def playing_nodes_def)

section \<open>Toggling without a buffer\<close>

text \<open>
  Claim C5. In a paused player whose current segment has no audio buffer ready,
  \<^verbatim>\<open>togglePlayback\<close> sets \<open>isPlaying\<close> and \<open>isBuffering\<close> and changes nothing else: no
  source node is created or started, and no call of \<^verbatim>\<open>playSegment\<close> is left waiting.
  The effects that follow change nothing but \<open>indexRef\<close>, and \<^verbatim>\<open>playSegment\<close> itself,
  given a segment without a buffer, only sets \<open>isBuffering\<close>.
\<close>
theorem togglePlayback_without_buffer:
  assumes "\<not> isPlaying s"
    and "ready (segment_at (segments (story P)) (currentSegmentIndex s)) = None"
  shows "togglePlayback P s = s\<lparr> isPlaying := True, isBuffering := True \<rparr> \<and>
         isBuffering (togglePlayback P s) \<and> isPlaying (togglePlayback P s) \<and>
         nodes (togglePlayback P s) = nodes s \<and>
         sourceRef (togglePlayback P s) = sourceRef s \<and>
         awaiting (togglePlayback P s) = awaiting s \<and>
         playing_nodes (togglePlayback P s) = playing_nodes s \<and>
         (props s = P \<longrightarrow>
            step Toggle s =
              s\<lparr> isPlaying := True, isBuffering := True, indexRef := currentSegmentIndex s \<rparr>) \<and>
         (\<forall>seg off. seg_audioBuffer seg = None \<longrightarrow>
            playSegment P seg off s = s\<lparr> isBuffering := True \<rparr>)"
proof -
  have t: "togglePlayback P s = s\<lparr> isPlaying := True, isBuffering := True \<rparr>"
    using assms by (simp add: togglePlayback_def Let_def)
  have "props s = P \<longrightarrow>
      step Toggle s =
        s\<lparr> isPlaying := True, isBuffering := True, indexRef := currentSegmentIndex s \<rparr>"
    using assms(2) by (auto simp: t commit_def bufferReadyEffect_def)
  then show ?thesis
    by (simp add: t playing_nodes_def playSegment_no_buffer)
qed

text \<open>Play is pressed before the first segment has audio.\<close>
theorem togglePlayback_without_buffer_witness:
  "togglePlayback props_pending (init props_pending ctx_running) =
     (init props_pending ctx_running)\<lparr> isPlaying := True, isBuffering := True \<rparr> \<and>
   nodes (togglePlayback props_pending (init props_pending ctx_running)) = []"
proof -
  have a: "\<not> isPlaying (init props_pending ctx_running)"
    by (simp add: init_def)
  have b: "ready (segment_at (segments (story props_pending))
      (currentSegmentIndex (init props_pending ctx_running))) = None"
    by (simp add: init_def segment_at_def props_pending_def seg_pending_def)
  have "nodes (init props_pending ctx_running) = []" by (simp add: init_def)
  with togglePlayback_without_buffer [OF a b] show ?thesis by simp
qed


end
